theory Spec2Isabelle
  imports Main "HOL-Library.FSet"
begin

section \<open>Values and their string form\<close>

text \<open>
  The values a queried point carries: Python's \<^verbatim>\<open>None\<close>, \<^verbatim>\<open>str\<close>, \<^verbatim>\<open>int\<close>,
  \<^verbatim>\<open>bool\<close> and \<^verbatim>\<open>float\<close>. A float is kept as the text that \<^verbatim>\<open>str()\<close> prints for it.
\<close>

datatype val = VNone | VStr string | VInt int | VBool bool | VFloat string

text \<open>The callables stored in \<^verbatim>\<open>field_keys\<close>: \<^verbatim>\<open>int\<close>, \<^verbatim>\<open>float\<close> and \<^verbatim>\<open>str\<close>.\<close>

datatype ftype = TInt | TFloat | TStr

definition digit_char :: "nat \<Rightarrow> char" where
  "digit_char d = ''0123456789'' ! d"

text \<open>Decimal digits of a natural number, most significant first.\<close>

function str_nat :: "nat \<Rightarrow> string" where
  "str_nat n = (if n < 10 then [digit_char n] else str_nat (n div 10) @ [digit_char (n mod 10)])"
  by pat_completeness auto
termination
  by (relation "measure (\<lambda>n. n)") auto

declare str_nat.simps [simp del]

text \<open>\<^verbatim>\<open>str(i)\<close> for a Python integer.\<close>

definition py_str_int :: "int \<Rightarrow> string" where
  "py_str_int i = (if i < 0 then CHR ''-'' # str_nat (nat (- i)) else str_nat (nat i))"

text \<open>\<^verbatim>\<open>str(v)\<close> for a value of a point.\<close>

fun py_str :: "val \<Rightarrow> string" where
  "py_str VNone = ''None''"
| "py_str (VStr s) = s"
| "py_str (VInt i) = py_str_int i"
| "py_str (VBool b) = (if b then ''True'' else ''False'')"
| "py_str (VFloat r) = r"

section \<open>The string form of an integer is injective\<close>

text \<open>
  The \<^verbatim>\<open>while\<close> loop leaves a collision by writing \<^verbatim>\<open>str(fake_server_id)\<close> for a
  new number into the key, so two numbers must never print alike.
\<close>
lemma digit_cases: "a < 10 \<Longrightarrow> a \<in> {0, 1, 2, 3, 4, 5, 6, 7, 8, 9::nat}"
  by auto

lemma digit_char_inj: "a < 10 \<Longrightarrow> b < 10 \<Longrightarrow> digit_char a = digit_char b \<Longrightarrow> a = b"
  using digit_cases [of a] digit_cases [of b] by (auto simp: digit_char_def)

lemma digit_char_not_minus: "a < 10 \<Longrightarrow> digit_char a \<noteq> CHR ''-''"
  using digit_cases [of a] by (auto simp: digit_char_def)

lemma str_nat_not_Nil: "str_nat n \<noteq> []"
  by (subst str_nat.simps) simp

lemma str_nat_last: "last (str_nat n) = digit_char (n mod 10)"
  by (subst str_nat.simps) simp

lemma str_nat_butlast: "butlast (str_nat n) = (if n < 10 then [] else str_nat (n div 10))"
  by (subst str_nat.simps) simp

lemma str_nat_inj: "str_nat a = str_nat b \<Longrightarrow> a = b"
proof (induction a arbitrary: b rule: less_induct)
  case (less a)
  from less.prems have l: "digit_char (a mod 10) = digit_char (b mod 10)"
    using str_nat_last by metis
  then have m: "a mod 10 = b mod 10" by (intro digit_char_inj) simp_all
  from less.prems have bl: "butlast (str_nat a) = butlast (str_nat b)" by simp
  show ?case
  proof (cases "a < 10")
    case True
    with bl have "b < 10" using str_nat_not_Nil [of "b div 10"] by (auto simp: str_nat_butlast split: if_splits)
    with True m show ?thesis by simp
  next
    case False
    with bl have nb: "\<not> b < 10" using str_nat_not_Nil by (auto simp: str_nat_butlast split: if_splits)
    with False bl have "str_nat (a div 10) = str_nat (b div 10)" by (simp add: str_nat_butlast)
    moreover from False have "a div 10 < a" by simp
    ultimately have "a div 10 = b div 10" using less.IH by blast
    with m show ?thesis by (metis div_mult_mod_eq)
  qed
qed

lemma str_nat_hd_not_minus: "hd (str_nat n) \<noteq> CHR ''-''"
proof (induction n rule: less_induct)
  case (less n)
  show ?case
  proof (cases "n < 10")
    case True
    then have "str_nat n = [digit_char n]" by (subst str_nat.simps) simp
    moreover have "digit_char n \<noteq> CHR ''-''" using True by (rule digit_char_not_minus)
    ultimately show ?thesis by simp
  next
    case False
    then have "str_nat n = str_nat (n div 10) @ [digit_char (n mod 10)]" by (subst str_nat.simps) simp
    moreover from False have "hd (str_nat (n div 10)) \<noteq> CHR ''-''" using less.IH by simp
    ultimately show ?thesis using str_nat_not_Nil by (simp add: hd_append)
  qed
qed

lemma py_str_int_inj: "py_str_int a = py_str_int b \<Longrightarrow> a = b"
proof -
  assume e: "py_str_int a = py_str_int b"
  have neq: "\<And>x y. CHR ''-'' # str_nat x \<noteq> str_nat y"
    using str_nat_hd_not_minus by (metis list.sel(1))
  show "a = b"
  proof (cases "a < 0")
    case True
    with e neq have "b < 0" by (auto simp: py_str_int_def split: if_splits)
    with True e have "nat (- a) = nat (- b)" by (auto simp: py_str_int_def dest: str_nat_inj)
    with True \<open>b < 0\<close> show ?thesis by simp
  next
    case False
    with e neq have nb: "\<not> b < 0" by (auto simp: py_str_int_def split: if_splits) (metis)
    with False e have "nat a = nat b" by (auto simp: py_str_int_def dest: str_nat_inj)
    with False nb show ?thesis by simp
  qed
qed

section \<open>Points, schema tables and errors\<close>

text \<open>
  A point of the query result is a Python dict. Its \<^verbatim>\<open>'time'\<close> entry is kept apart, as the
  number of microseconds that \<^verbatim>\<open>np.datetime64(pt['time'])\<close> stands for (an unbounded
  integer here; numpy keeps it in 64 bits); \<open>attrs\<close> holds the other entries in the
  dict's iteration order. No table declares a tag key \<^verbatim>\<open>time\<close>, so \<^verbatim>\<open>tag_key in pt\<close> and
  \<^verbatim>\<open>pt[tag_key]\<close> are lookups in \<open>attrs\<close>.
\<close>

record raw_point =
  time :: int
  attrs :: "(string \<times> val) list"

text \<open>
  One element of the list \<^verbatim>\<open>series\<close>: the timestamp at index 0, strings after it.
  \<^verbatim>\<open>tuple(series)\<close> is the list itself.
\<close>

datatype cell = CTime int | CStr string

type_synonym series = "cell list"

text \<open>
  The dict appended to \<^verbatim>\<open>json_body\<close>: \<open>ptime\<close> stands for \<^verbatim>\<open>str(series[0])\<close>, \<open>ptags\<close>
  and \<open>pfields\<close> for its \<^verbatim>\<open>'tags'\<close> and \<^verbatim>\<open>'fields'\<close> entries.
\<close>

record point =
  measurement :: string
  ptime :: cell
  ptags :: "string \<rightharpoonup> string"
  pfields :: "string \<rightharpoonup> val"

text \<open>
  Every way the loop body can stop the run: the three \<^verbatim>\<open>sys.exit\<close> calls, a failed
  conversion of a field value, and the exceptions Python raises for a measurement missing
  from the tables or an ill-formed \<^verbatim>\<open>series\<close>.
\<close>

datatype error =
    MissingDeclaredTag string
  | UnresolvableCollision string
  | UnclassifiableKey string
  | TypeCoercionFailure string
  | KeyError string
  | IndexError
  | TypeError

definition tag_keys_table :: "(string \<times> string list) list" where
  "tag_keys_table =
    [(''active_streams'', [''channel'', ''server_id'']),
     (''backlog'', [''channel'']),
     (''channel_status'', [''channel'']),
     (''client_buffer'', [''channel'', ''server_id'']),
     (''client_error'', []),
     (''client_sysinfo'', [''server_id'']),
     (''decoder_info'', [''channel'']),
     (''server_info'', [''server_id'']),
     (''ssim'', [''channel'', ''format'']),
     (''video_acked'', [''channel'', ''server_id'']),
     (''video_sent'', [''channel'', ''server_id'']),
     (''video_size'', [''channel'', ''format''])]"

definition tag_keys :: "string \<Rightarrow> string list option" where
  "tag_keys = map_of tag_keys_table"

definition field_keys_table :: "(string \<times> (string \<times> ftype) list) list" where
  "field_keys_table =
    [(''active_streams'', [(''count'', TInt), (''expt_id'', TInt)]),
     (''backlog'', [(''canonical_cnt'', TInt), (''working_cnt'', TInt)]),
     (''channel_status'', [(''selected_rate'', TFloat), (''snr'', TFloat)]),
     (''client_buffer'', [(''buffer'', TFloat), (''cum_rebuf'', TFloat), (''event'', TStr),
                          (''expt_id'', TInt), (''init_id'', TInt), (''user'', TStr)]),
     (''client_error'', [(''error'', TStr), (''init_id'', TInt), (''user'', TStr)]),
     (''client_sysinfo'', [(''browser'', TStr), (''expt_id'', TInt), (''init_id'', TInt),
                           (''ip'', TStr), (''os'', TStr), (''screen_height'', TInt),
                           (''screen_width'', TInt), (''user'', TStr)]),
     (''decoder_info'', [(''due'', TInt), (''filler_fields'', TInt), (''timestamp'', TInt)]),
     (''server_info'', [(''server_id_1'', TInt)]),
     (''ssim'', [(''ssim_index'', TFloat), (''timestamp'', TInt)]),
     (''video_acked'', [(''buffer'', TFloat), (''cum_rebuffer'', TFloat), (''expt_id'', TInt),
                        (''init_id'', TInt), (''ssim_index'', TFloat), (''user'', TStr),
                        (''video_ts'', TInt)]),
     (''video_sent'', [(''buffer'', TFloat), (''cum_rebuffer'', TFloat), (''cwnd'', TInt),
                       (''delivery_rate'', TInt), (''expt_id'', TInt), (''format'', TStr),
                       (''in_flight'', TInt), (''init_id'', TInt), (''min_rtt'', TInt),
                       (''rtt'', TInt), (''size'', TInt), (''ssim_index'', TFloat),
                       (''user'', TStr), (''video_ts'', TInt)]),
     (''video_size'', [(''size'', TInt), (''timestamp'', TInt)])]"

definition field_keys :: "string \<Rightarrow> (string \<times> ftype) list option" where
  "field_keys = map_of field_keys_table"

section \<open>The body of the loop of \<^verbatim>\<open>convert_measurement\<close>\<close>

text \<open>
  The three measurements whose timestamps are never adjusted, and in which
  \<^verbatim>\<open>server_id\<close> may be missing.
\<close>

definition restricted :: "string \<Rightarrow> bool" where
  "restricted m = (m = ''client_buffer'' \<or> m = ''video_sent'' \<or> m = ''video_acked'')"

text \<open>
  Lines 97 to 113: the candidate key. The state is \<^verbatim>\<open>series\<close>, \<^verbatim>\<open>fake_server_id\<close> and
  \<^verbatim>\<open>fake_server_id_idx\<close>; the list argument is what is left of \<^verbatim>\<open>tag_keys[measurement_name]\<close>.
\<close>

fun build_series ::
  "string \<Rightarrow> raw_point \<Rightarrow> string list \<Rightarrow> series \<times> int option \<times> nat option
    \<Rightarrow> error + (series \<times> int option \<times> nat option)" where
  "build_series m pt [] st = Inr st"
| "build_series m pt (tag_key # ks) (series, fake_server_id, fake_server_id_idx) =
    (case map_of (attrs pt) tag_key of
       Some v \<Rightarrow>
         build_series m pt ks (series @ [CStr (py_str v)], fake_server_id, fake_server_id_idx)
     | None \<Rightarrow>
         if tag_key \<noteq> ''server_id'' \<or>
            (m \<noteq> ''client_buffer'' \<and> m \<noteq> ''video_sent'' \<and> m \<noteq> ''video_acked'')
         then Inl (MissingDeclaredTag tag_key)
         else build_series m pt ks
                (series @ [CStr (py_str_int 1)], Some 1,
                 Some (length (series @ [CStr (py_str_int 1)]) - 1)))"

text \<open>
  Lines 116 to 129: the \<^verbatim>\<open>while\<close> loop. It returns the adjusted \<^verbatim>\<open>series\<close> and
  \<^verbatim>\<open>fake_server_id\<close>. The measure of the termination proof counts the keys of
  \<^verbatim>\<open>dup_check\<close> that the loop can still run into.
\<close>

definition ahead :: "series fset \<Rightarrow> series \<Rightarrow> int option \<Rightarrow> nat option \<Rightarrow> nat" where
  "ahead dup series fake idx =
    (case fake of
       Some f \<Rightarrow>
         (case idx of
            Some i \<Rightarrow> card {n. f < n \<and> series[i := CStr (py_str_int n)] |\<in>| dup}
          | None \<Rightarrow> 0)
     | None \<Rightarrow>
         (case series of
            CTime t # rest \<Rightarrow> card {u. t < u \<and> CTime u # rest |\<in>| dup}
          | _ \<Rightarrow> 0))
    + (if series |\<in>| dup then 1 else 0)"

text \<open>Each turn of the loop lowers the measure, in both branches.\<close>

lemma finite_fake_slots:
  assumes "i < length series"
  shows "finite {n. series[i := CStr (py_str_int n)] |\<in>| dup}"
proof -
  have "inj (\<lambda>n. series[i := CStr (py_str_int n)])"
  proof (rule injI)
    fix a b
    assume "series[i := CStr (py_str_int a)] = series[i := CStr (py_str_int b)]"
    then have "series[i := CStr (py_str_int a)] ! i = series[i := CStr (py_str_int b)] ! i"
      by simp
    with assms show "a = b" by (simp add: py_str_int_inj)
  qed
  then have "finite ((\<lambda>n. series[i := CStr (py_str_int n)]) -` fset dup)"
    by (intro finite_vimageI) simp_all
  moreover have "{n. series[i := CStr (py_str_int n)] |\<in>| dup}
      = (\<lambda>n. series[i := CStr (py_str_int n)]) -` fset dup"
    by auto
  ultimately show ?thesis by simp
qed

lemma finite_shifted_times: "finite {u. CTime u # rest |\<in>| dup}"
proof -
  have "inj (\<lambda>u. CTime u # rest)" by (rule injI) simp
  then have "finite ((\<lambda>u. CTime u # rest) -` fset dup)"
    by (intro finite_vimageI) simp_all
  moreover have "{u. CTime u # rest |\<in>| dup} = (\<lambda>u. CTime u # rest) -` fset dup"
    by auto
  ultimately show ?thesis by simp
qed

lemma card_above_step:
  fixes f :: int
  assumes "finite {n. P n}"
  shows "card {n. f + 1 < n \<and> P n} + (if P (f + 1) then 1 else 0) = card {n. f < n \<and> P n}"
proof -
  let ?S = "{n. f < n \<and> P n}"
  have fin: "finite ?S" using assms by simp
  have eq: "{n. f + 1 < n \<and> P n} = ?S - {f + 1}" by auto
  show ?thesis
  proof (cases "P (f + 1)")
    case True
    then have "f + 1 \<in> ?S" by simp
    with fin have "card (?S - {f + 1}) + 1 = card ?S"
      by (metis One_nat_def add.right_neutral add_Suc_right card_Suc_Diff1)
    with True eq show ?thesis by simp
  next
    case False
    then have "?S - {f + 1} = ?S" by auto
    with False eq show ?thesis by simp
  qed
qed

lemma ahead_fake_step:
  assumes "series |\<in>| dup" and "i < length series"
  shows "ahead dup (series[i := CStr (py_str_int (f + 1))]) (Some (f + 1)) (Some i)
          < ahead dup series (Some f) (Some i)"
proof -
  have "finite {n. series[i := CStr (py_str_int n)] |\<in>| dup}"
    using assms(2) by (rule finite_fake_slots)
  from card_above_step [OF this, of f] assms(1) show ?thesis
    by (simp add: ahead_def)
qed

lemma ahead_time_step:
  assumes "CTime t # rest |\<in>| dup"
  shows "ahead dup (CTime (t + 1) # rest) None idx < ahead dup (CTime t # rest) None idx"
proof -
  have "finite {u. CTime u # rest |\<in>| dup}" by (rule finite_shifted_times)
  from card_above_step [OF this, of t] assms show ?thesis
    by (simp add: ahead_def)
qed

function resolve ::
  "string \<Rightarrow> series fset \<Rightarrow> series \<Rightarrow> int option \<Rightarrow> nat option
    \<Rightarrow> error + (series \<times> int option)" where
  "resolve m dup_check series fake_server_id fake_server_id_idx =
    (if series |\<notin>| dup_check then Inr (series, fake_server_id)
     else
       (case fake_server_id of
          Some f \<Rightarrow>
            (case fake_server_id_idx of
               None \<Rightarrow> Inl TypeError
             | Some i \<Rightarrow>
                 if i < length series
                 then resolve m dup_check (series[i := CStr (py_str_int (f + 1))])
                        (Some (f + 1)) fake_server_id_idx
                 else Inl IndexError)
        | None \<Rightarrow>
            if m = ''client_buffer'' \<or> m = ''video_sent'' \<or> m = ''video_acked''
            then Inl (UnresolvableCollision m)
            else
              (case series of
                 [] \<Rightarrow> Inl IndexError
               | CStr s # rest \<Rightarrow> Inl TypeError
               | CTime t # rest \<Rightarrow>
                   resolve m dup_check (CTime (t + 1) # rest) None fake_server_id_idx)))"
  by pat_completeness auto
termination
  by (relation "measure (\<lambda>(m, dup, series, fake, idx). ahead dup series fake idx)")
     (simp_all add: ahead_fake_step ahead_time_step)

declare resolve.simps [simp del]

text \<open>
  The same loop with a budget: \<open>resolve_fuel n\<close> tests the loop condition at most \<open>n\<close>
  times and is \<open>None\<close> when the budget runs out before the loop ends.
\<close>

fun resolve_fuel ::
  "nat \<Rightarrow> string \<Rightarrow> series fset \<Rightarrow> series \<Rightarrow> int option \<Rightarrow> nat option
    \<Rightarrow> (error + (series \<times> int option)) option" where
  "resolve_fuel 0 m dup_check series fake_server_id fake_server_id_idx = None"
| "resolve_fuel (Suc n) m dup_check series fake_server_id fake_server_id_idx =
    (if series |\<notin>| dup_check then Some (Inr (series, fake_server_id))
     else
       (case fake_server_id of
          Some f \<Rightarrow>
            (case fake_server_id_idx of
               None \<Rightarrow> Some (Inl TypeError)
             | Some i \<Rightarrow>
                 if i < length series
                 then resolve_fuel n m dup_check (series[i := CStr (py_str_int (f + 1))])
                        (Some (f + 1)) fake_server_id_idx
                 else Some (Inl IndexError))
        | None \<Rightarrow>
            if m = ''client_buffer'' \<or> m = ''video_sent'' \<or> m = ''video_acked''
            then Some (Inl (UnresolvableCollision m))
            else
              (case series of
                 [] \<Rightarrow> Some (Inl IndexError)
               | CStr s # rest \<Rightarrow> Some (Inl TypeError)
               | CTime t # rest \<Rightarrow>
                   resolve_fuel n m dup_check (CTime (t + 1) # rest) None fake_server_id_idx)))"

text \<open>
  Lines 148 to 151: \<^verbatim>\<open>k[-2:] == '_1'\<close> compares the last two characters (the whole key when it
  is shorter), \<^verbatim>\<open>k[:-2]\<close> drops them.
\<close>

definition normalize :: "string \<Rightarrow> string \<Rightarrow> string" where
  "normalize m pt_k =
    (if m \<noteq> ''server_info''
     then (if drop (length pt_k - 2) pt_k = ''_1'' then take (length pt_k - 2) pt_k else pt_k)
     else pt_k)"

text \<open>
  Lines 141 to 159: the loop over the entries of the point, on the dicts \<^verbatim>\<open>tags\<close> and
  \<^verbatim>\<open>fields\<close> (here \<open>fields'\<close>). \<open>tks\<close> and \<open>fks\<close> are \<^verbatim>\<open>tag_keys[measurement_name]\<close> and
  \<^verbatim>\<open>field_keys[measurement_name]\<close>. \<open>coerce ty v\<close> stands for the call of Python's \<^verbatim>\<open>int\<close>,
  \<^verbatim>\<open>float\<close> or \<^verbatim>\<open>str\<close> on the value, \<open>None\<close> when the call raises.
\<close>

fun classify ::
  "(ftype \<Rightarrow> val \<Rightarrow> val option) \<Rightarrow> string \<Rightarrow> string list \<Rightarrow> (string \<times> ftype) list
    \<Rightarrow> (string \<times> val) list \<Rightarrow> (string \<rightharpoonup> string) \<times> (string \<rightharpoonup> val)
    \<Rightarrow> error + ((string \<rightharpoonup> string) \<times> (string \<rightharpoonup> val))" where
  "classify coerce m tks fks [] (tags, fields') = Inr (tags, fields')"
| "classify coerce m tks fks ((pt_k, v) # rest) (tags, fields') =
    (if pt_k = ''time'' then classify coerce m tks fks rest (tags, fields')
     else if v = VNone then classify coerce m tks fks rest (tags, fields')
     else
       (let k = normalize m pt_k in
        if k \<in> set tks then classify coerce m tks fks rest (tags(k \<mapsto> py_str v), fields')
        else
          (case map_of fks k of
             Some ty \<Rightarrow>
               (case coerce ty v of
                  None \<Rightarrow> Inl (TypeCoercionFailure k)
                | Some w \<Rightarrow> classify coerce m tks fks rest (tags, fields'(k \<mapsto> w)))
           | None \<Rightarrow> Inl (UnclassifiableKey k))))"

text \<open>
  Lines 131 to 166, once the key is settled: the key joins \<^verbatim>\<open>dup_check\<close>, \<^verbatim>\<open>str(series[0])\<close>
  is taken, \<^verbatim>\<open>tags\<close> starts from the synthetic \<^verbatim>\<open>server_id\<close> when there is one, and the
  entries of the point are classified. Both tables have the same measurement names, so a
  measurement found in \<^verbatim>\<open>tag_keys\<close> is found in \<^verbatim>\<open>field_keys\<close>.
\<close>

definition emit_point ::
  "(ftype \<Rightarrow> val \<Rightarrow> val option) \<Rightarrow> string \<Rightarrow> string list \<Rightarrow> series fset \<Rightarrow> series
    \<Rightarrow> int option \<Rightarrow> raw_point \<Rightarrow> error + (point \<times> series fset)" where
  "emit_point coerce m tks dup_check series fake_server_id pt =
    (case series of
       [] \<Rightarrow> Inl IndexError
     | c # rest \<Rightarrow>
    (case field_keys m of
       None \<Rightarrow> Inl (KeyError m)
     | Some fks \<Rightarrow>
    (case classify coerce m tks fks (attrs pt)
            (case fake_server_id of
               Some f \<Rightarrow> [''server_id'' \<mapsto> py_str_int f]
             | None \<Rightarrow> Map.empty,
             Map.empty) of
       Inl e \<Rightarrow> Inl e
     | Inr (tags, fields') \<Rightarrow>
         Inr (\<lparr>measurement = m, ptime = c, ptags = tags, pfields = fields'\<rparr>,
              finsert series dup_check))))"

text \<open>
  One turn of the \<^verbatim>\<open>for\<close> loop, lines 93 to 166: the emitted point and the new
  \<^verbatim>\<open>dup_check\<close>, or the error that ends the run.
\<close>

definition process_point ::
  "(ftype \<Rightarrow> val \<Rightarrow> val option) \<Rightarrow> string \<Rightarrow> series fset \<Rightarrow> raw_point
    \<Rightarrow> error + (point \<times> series fset)" where
  "process_point coerce m dup_check pt =
    (case tag_keys m of
       None \<Rightarrow> Inl (KeyError m)
     | Some tks \<Rightarrow>
    (case build_series m pt tks ([CTime (time pt)], None, None) of
       Inl e \<Rightarrow> Inl e
     | Inr (series0, fake0, idx) \<Rightarrow>
    (case resolve m dup_check series0 fake0 idx of
       Inl e \<Rightarrow> Inl e
     | Inr (series, fake_server_id) \<Rightarrow>
         emit_point coerce m tks dup_check series fake_server_id pt)))"

text \<open>
  The state of the \<^verbatim>\<open>for\<close> loop: \<^verbatim>\<open>json_body\<close>, \<^verbatim>\<open>dup_check\<close>, and the batches handed to
  \<^verbatim>\<open>influx_client.write_points\<close> so far, oldest first.
\<close>

record state =
  json_body :: "point list"
  dup_check :: "series fset"
  written :: "point list list"

text \<open>
  Lines 92 to 170 over the points of \<^verbatim>\<open>results[measurement_name]\<close>. A fatal error leaves
  the batches already written.
\<close>

fun convert_points ::
  "(ftype \<Rightarrow> val \<Rightarrow> val option) \<Rightarrow> string \<Rightarrow> raw_point list \<Rightarrow> state
    \<Rightarrow> error option \<times> state" where
  "convert_points coerce m [] st = (None, st)"
| "convert_points coerce m (pt # pts) st =
    (case process_point coerce m (dup_check st) pt of
       Inl e \<Rightarrow> (Some e, st)
     | Inr (p, dup') \<Rightarrow>
         (if length (json_body st @ [p]) \<ge> 1000
          then convert_points coerce m pts
                 \<lparr>json_body = [], dup_check = dup', written = written st @ [json_body st @ [p]]\<rparr>
          else convert_points coerce m pts
                 \<lparr>json_body = json_body st @ [p], dup_check = dup', written = written st\<rparr>))"

text \<open>
  \<^verbatim>\<open>convert_measurement\<close>, lines 85 to 173: the error that stopped the run, if any, and the
  batches written, with the last partial batch of line 173 when the loop came to its end.
  The points of the query result are the list \<open>pts\<close>; the diagnostics written to
  \<^verbatim>\<open>sys.stderr\<close> are left out.
\<close>

definition convert_measurement ::
  "(ftype \<Rightarrow> val \<Rightarrow> val option) \<Rightarrow> string \<Rightarrow> raw_point list
    \<Rightarrow> error option \<times> point list list" where
  "convert_measurement coerce m pts =
    (case convert_points coerce m pts \<lparr>json_body = [], dup_check = {||}, written = []\<rparr> of
       (Some e, st) \<Rightarrow> (Some e, written st)
     | (None, st) \<Rightarrow>
         (None, if json_body st \<noteq> [] then written st @ [json_body st] else written st))"

text \<open>
  The conversions that need neither parsing nor rounding: \<^verbatim>\<open>str\<close> of any value, \<^verbatim>\<open>int\<close>
  of an integer or a boolean, \<^verbatim>\<open>float\<close> of a float. The examples below run with it; the
  general theorems hold for every \<open>coerce\<close>.
\<close>

fun coerce_plain :: "ftype \<Rightarrow> val \<Rightarrow> val option" where
  "coerce_plain TStr v = Some (VStr (py_str v))"
| "coerce_plain TInt (VInt i) = Some (VInt i)"
| "coerce_plain TInt (VBool b) = Some (VInt (if b then 1 else 0))"
| "coerce_plain TFloat (VFloat r) = Some (VFloat r)"
| "coerce_plain _ _ = None"

section \<open>Notions used in the statements\<close>

text \<open>The cells that \<open>build_series\<close> appends to the key for the tag keys \<open>ks\<close>.\<close>

definition tag_cells :: "raw_point \<Rightarrow> string list \<Rightarrow> cell list" where
  "tag_cells pt ks =
    map (\<lambda>k. CStr (case map_of (attrs pt) k of Some v \<Rightarrow> py_str v | None \<Rightarrow> py_str_int 1)) ks"

text \<open>Every point appended to \<^verbatim>\<open>json_body\<close> so far, written or not, in order.\<close>

definition emitted :: "state \<Rightarrow> point list" where
  "emitted st = concat (written st) @ json_body st"

text \<open>An entry that the loop of lines 141 to 159 does not skip.\<close>

definition live :: "string \<times> val \<Rightarrow> bool" where
  "live e = (fst e \<noteq> ''time'' \<and> snd e \<noteq> VNone)"



text \<open>
  The dedup key of an emitted point: its time, followed by its tag values in the order of
  the declared tag keys (\<open>None\<close> where the point has no such tag).
\<close>

definition dedup_key :: "string list \<Rightarrow> point \<Rightarrow> cell \<times> string option list" where
  "dedup_key tks p = (ptime p, map (ptags p) tks)"

text \<open>The dedup key of an emitted point written as a key of \<^verbatim>\<open>dup_check\<close>.\<close>

definition ser_of :: "string list \<Rightarrow> point \<Rightarrow> series" where
  "ser_of tks p = ptime p # map (\<lambda>k. CStr (case ptags p k of Some s \<Rightarrow> s | None \<Rightarrow> ''None'')) tks"

text \<open>
  An entry that lines 153 to 159 accept: its normalized key is a declared tag key, or a
  declared field key whose conversion of the value does not raise.
\<close>

definition classifiable ::
  "(ftype \<Rightarrow> val \<Rightarrow> val option) \<Rightarrow> string \<Rightarrow> string list \<Rightarrow> (string \<times> ftype) list
    \<Rightarrow> string \<times> val \<Rightarrow> bool" where
  "classifiable coerce m tks fks e =
    (normalize m (fst e) \<in> set tks \<or>
     (case map_of fks (normalize m (fst e)) of
        Some ty \<Rightarrow> coerce ty (snd e) \<noteq> None
      | None \<Rightarrow> False))"

section \<open>The collision loop: what it returns and how long it runs\<close>

lemma resolve_fresh:
  "series |\<notin>| dup \<Longrightarrow> resolve m dup series fake idx = Inr (series, fake)"
  by (subst resolve.simps) simp

lemma resolve_fake_step:
  "series |\<in>| dup \<Longrightarrow> i < length series \<Longrightarrow>
   resolve m dup series (Some f) (Some i)
     = resolve m dup (series[i := CStr (py_str_int (f + 1))]) (Some (f + 1)) (Some i)"
  by (subst resolve.simps) simp

lemma resolve_time_step:
  "CTime t # rest |\<in>| dup \<Longrightarrow> \<not> restricted m \<Longrightarrow>
   resolve m dup (CTime t # rest) None idx = resolve m dup (CTime (t + 1) # rest) None idx"
  by (subst resolve.simps) (simp add: restricted_def)

lemma resolve_restricted:
  "series |\<in>| dup \<Longrightarrow> restricted m \<Longrightarrow>
   resolve m dup series None idx = Inl (UnresolvableCollision m)"
  by (subst resolve.simps) (simp add: restricted_def)

lemma resolve_fake_least:
  assumes "i < length series"
  shows "\<exists>n::nat.
    resolve m dup (series[i := CStr (py_str_int f)]) (Some f) (Some i)
      = Inr (series[i := CStr (py_str_int (f + int n))], Some (f + int n))
    \<and> series[i := CStr (py_str_int (f + int n))] |\<notin>| dup
    \<and> (\<forall>j<n. series[i := CStr (py_str_int (f + int j))] |\<in>| dup)"
proof (induction "ahead dup (series[i := CStr (py_str_int f)]) (Some f) (Some i)"
        arbitrary: f rule: less_induct)
  case less
  let ?g = "\<lambda>x. series[i := CStr (py_str_int x)]"
  show ?case
  proof (cases "?g f |\<in>| dup")
    case False
    then have "resolve m dup (?g f) (Some f) (Some i) = Inr (?g (f + int 0), Some (f + int 0))"
      by (simp add: resolve_fresh)
    with False show ?thesis by (intro exI [of _ 0]) simp
  next
    case True
    have len: "i < length (?g f)" using assms by simp
    have step: "resolve m dup (?g f) (Some f) (Some i) = resolve m dup (?g (f + 1)) (Some (f + 1)) (Some i)"
      using resolve_fake_step [OF True len] by simp
    have "ahead dup (?g (f + 1)) (Some (f + 1)) (Some i) < ahead dup (?g f) (Some f) (Some i)"
      using ahead_fake_step [OF True len] by simp
    from less [OF this] obtain n where
      r: "resolve m dup (?g (f + 1)) (Some (f + 1)) (Some i)
            = Inr (?g (f + 1 + int n), Some (f + 1 + int n))"
      and fr: "?g (f + 1 + int n) |\<notin>| dup"
      and bl: "\<forall>j<n. ?g (f + 1 + int j) |\<in>| dup"
      by blast
    have "\<forall>j<Suc n. ?g (f + int j) |\<in>| dup"
    proof (intro allI impI)
      fix j assume "j < Suc n"
      show "?g (f + int j) |\<in>| dup"
      proof (cases j)
        case 0
        with True show ?thesis by simp
      next
        case (Suc j')
        with \<open>j < Suc n\<close> bl have "?g (f + 1 + int j') |\<in>| dup" by simp
        with Suc show ?thesis by (simp add: add.commute add.left_commute)
      qed
    qed
    moreover have "f + 1 + int n = f + int (Suc n)" by simp
    ultimately show ?thesis using step r fr by (intro exI [of _ "Suc n"]) (simp only:, simp)
  qed
qed

lemma resolve_time_least:
  assumes "\<not> restricted m"
  shows "\<exists>n::nat.
    resolve m dup (CTime t # rest) None idx = Inr (CTime (t + int n) # rest, None)
    \<and> CTime (t + int n) # rest |\<notin>| dup
    \<and> (\<forall>j<n. CTime (t + int j) # rest |\<in>| dup)"
proof (induction "ahead dup (CTime t # rest) None idx" arbitrary: t rule: less_induct)
  case less
  let ?g = "\<lambda>x. CTime x # rest"
  show ?case
  proof (cases "?g t |\<in>| dup")
    case False
    then have "resolve m dup (?g t) None idx = Inr (?g (t + int 0), None)"
      by (simp add: resolve_fresh)
    with False show ?thesis by (intro exI [of _ 0]) simp
  next
    case True
    have step: "resolve m dup (?g t) None idx = resolve m dup (?g (t + 1)) None idx"
      using resolve_time_step [OF True assms] .
    have "ahead dup (?g (t + 1)) None idx < ahead dup (?g t) None idx"
      using ahead_time_step [OF True] .
    from less [OF this] obtain n where
      r: "resolve m dup (?g (t + 1)) None idx = Inr (?g (t + 1 + int n), None)"
      and fr: "?g (t + 1 + int n) |\<notin>| dup"
      and bl: "\<forall>j<n. ?g (t + 1 + int j) |\<in>| dup"
      by blast
    have "\<forall>j<Suc n. ?g (t + int j) |\<in>| dup"
    proof (intro allI impI)
      fix j assume "j < Suc n"
      show "?g (t + int j) |\<in>| dup"
      proof (cases j)
        case 0
        with True show ?thesis by simp
      next
        case (Suc j')
        with \<open>j < Suc n\<close> bl have "?g (t + 1 + int j') |\<in>| dup" by simp
        with Suc show ?thesis by (simp add: add.commute add.left_commute)
      qed
    qed
    moreover have "t + 1 + int n = t + int (Suc n)" by simp
    ultimately show ?thesis using step r fr by (intro exI [of _ "Suc n"]) (simp only:, simp)
  qed
qed

lemma resolve_fuel_enough:
  "ahead dup series fake idx < n \<Longrightarrow>
   resolve_fuel n m dup series fake idx = Some (resolve m dup series fake idx)"
proof (induction n arbitrary: series fake)
  case 0
  then show ?case by simp
next
  case (Suc n)
  show ?case
  proof (cases "series |\<in>| dup")
    case False
    then show ?thesis by (simp add: resolve_fresh)
  next
    case True
    show ?thesis
    proof (cases fake)
      case (Some f)
      show ?thesis
      proof (cases idx)
        case None
        with True Some show ?thesis by (subst resolve.simps) simp
      next
        case (Some i)
        show ?thesis
        proof (cases "i < length series")
          case False
          with True \<open>fake = Some f\<close> Some show ?thesis by (subst resolve.simps) simp
        next
          case lt: True
          have "ahead dup (series[i := CStr (py_str_int (f + 1))]) (Some (f + 1)) idx < n"
            using ahead_fake_step [OF True lt, of f] Suc.prems \<open>fake = Some f\<close> Some by simp
          from Suc.IH [OF this] True lt \<open>fake = Some f\<close> Some show ?thesis
            by (simp add: resolve_fake_step)
        qed
      qed
    next
      case None
      show ?thesis
      proof (cases "restricted m")
        case r: True
        with True None have "resolve m dup series fake idx = Inl (UnresolvableCollision m)"
          by (simp add: resolve_restricted)
        moreover from r True None
        have "resolve_fuel (Suc n) m dup series fake idx = Some (Inl (UnresolvableCollision m))"
          by (auto simp: restricted_def)
        ultimately show ?thesis by simp
      next
        case nr: False
        show ?thesis
        proof (cases series)
          case Nil
          with True None nr show ?thesis by (subst resolve.simps) (simp add: restricted_def)
        next
          case (Cons c rest)
          show ?thesis
          proof (cases c)
            case (CStr s)
            with True None nr Cons show ?thesis by (subst resolve.simps) (simp add: restricted_def)
          next
            case (CTime t)
            have mem: "CTime t # rest |\<in>| dup" using True Cons CTime by simp
            have "ahead dup (CTime (t + 1) # rest) None idx < n"
              using ahead_time_step [OF mem, of idx] Suc.prems None Cons CTime by simp
            from Suc.IH [OF this] mem nr None Cons CTime show ?thesis
              using resolve_time_step [OF mem nr, of idx] by (simp add: restricted_def)
          qed
        qed
      qed
    qed
  qed
qed

lemma card_preimage_le:
  fixes g :: "int \<Rightarrow> series"
  assumes "inj g"
  shows "card {n. P n \<and> g n |\<in>| dup} \<le> fcard dup"
proof -
  have "g ` {n. P n \<and> g n |\<in>| dup} \<subseteq> fset dup" by auto
  then have "card (g ` {n. P n \<and> g n |\<in>| dup}) \<le> card (fset dup)"
    by (intro card_mono) simp_all
  moreover have "card (g ` {n. P n \<and> g n |\<in>| dup}) = card {n. P n \<and> g n |\<in>| dup}"
    using assms by (intro card_image) (auto simp: inj_on_def dest: injD)
  ultimately show ?thesis by (simp add: fcard.rep_eq)
qed

lemma card_const_preimage:
  fixes f :: int
  shows "card {n. f < n \<and> Q} = 0"
proof (cases Q)
  case True
  have "infinite {n. f < n}"
  proof
    assume "finite {n. f < n}"
    then have "finite (((\<lambda>k. f + 1 + int k) ` (UNIV :: nat set)))"
      by (rule rev_finite_subset) auto
    moreover have "inj (\<lambda>k. f + 1 + int k)" by (rule injI) simp
    ultimately have "finite (UNIV :: nat set)" by (metis finite_imageD)
    then show False by simp
  qed
  with True show ?thesis by simp
next
  case False
  then show ?thesis by simp
qed

lemma ahead_bound: "ahead dup series fake idx \<le> fcard dup + 1"
proof -
  have a: "card {n. f < n \<and> series[i := CStr (py_str_int n)] |\<in>| dup} \<le> fcard dup" for f i
  proof (cases "i < length series")
    case True
    have "inj (\<lambda>n. series[i := CStr (py_str_int n)])"
    proof (rule injI)
      fix a b
      assume "series[i := CStr (py_str_int a)] = series[i := CStr (py_str_int b)]"
      then have "series[i := CStr (py_str_int a)] ! i = series[i := CStr (py_str_int b)] ! i"
        by simp
      with True show "a = b" by (simp add: py_str_int_inj)
    qed
    then show ?thesis by (rule card_preimage_le)
  next
    case False
    then have "series[i := CStr (py_str_int n)] = series" for n
      by (intro list_update_beyond) simp
    then show ?thesis using card_const_preimage [of f "series |\<in>| dup"] by simp
  qed
  have b: "card {u. t < u \<and> CTime u # rest |\<in>| dup} \<le> fcard dup" for t rest
  proof -
    have "inj (\<lambda>u. CTime u # rest)" by (rule injI) simp
    then show ?thesis by (rule card_preimage_le)
  qed
  show ?thesis
  proof (cases fake)
    case (Some f)
    show ?thesis
    proof (cases idx)
      case None
      with Some show ?thesis by (simp add: ahead_def)
    next
      case (Some i)
      with \<open>fake = Some f\<close> a [of f i] show ?thesis by (simp add: ahead_def)
    qed
  next
    case None
    show ?thesis
    proof (cases series)
      case Nil
      with None show ?thesis by (simp add: ahead_def)
    next
      case (Cons c rest)
      show ?thesis
      proof (cases c)
        case (CTime t)
        with None Cons b [of t rest] show ?thesis by (simp add: ahead_def)
      next
        case (CStr s)
        with None Cons show ?thesis by (simp add: ahead_def)
      qed
    qed
  qed
qed

lemma resolve_fuel_bound:
  "resolve_fuel (fcard dup + 2) m dup series fake idx = Some (resolve m dup series fake idx)"
  using ahead_bound [of dup series fake idx] by (intro resolve_fuel_enough) simp

lemma resolve_result_fresh:
  "resolve m dup series fake idx = Inr (s, f') \<Longrightarrow> s |\<notin>| dup"
proof (induction m dup series fake idx rule: resolve.induct)
  case (1 m dup series fake idx)
  show ?case
  proof (cases "series |\<in>| dup")
    case False
    with "1.prems" show ?thesis by (simp add: resolve_fresh)
  next
    case True
    show ?thesis
    proof (cases fake)
      case (Some f)
      show ?thesis
      proof (cases idx)
        case None
        with True Some "1.prems" show ?thesis by (subst (asm) resolve.simps) simp
      next
        case (Some i)
        show ?thesis
        proof (cases "i < length series")
          case False
          with True \<open>fake = Some f\<close> Some "1.prems" show ?thesis
            by (subst (asm) resolve.simps) simp
        next
          case lt: True
          from "1.prems" True lt \<open>fake = Some f\<close> Some
          have "resolve m dup (series[i := CStr (py_str_int (f + 1))]) (Some (f + 1)) idx = Inr (s, f')"
            by (simp add: resolve_fake_step)
          with "1.IH" True lt \<open>fake = Some f\<close> Some show ?thesis by simp
        qed
      qed
    next
      case None
      show ?thesis
      proof (cases "restricted m")
        case True
        with \<open>series |\<in>| dup\<close> None "1.prems" show ?thesis by (simp add: resolve_restricted)
      next
        case nr: False
        show ?thesis
        proof (cases series)
          case Nil
          with True None nr "1.prems" show ?thesis
            by (subst (asm) resolve.simps) (simp add: restricted_def)
        next
          case (Cons c rest)
          show ?thesis
          proof (cases c)
            case (CStr x)
            with True None nr Cons "1.prems" show ?thesis
              by (subst (asm) resolve.simps) (simp add: restricted_def)
          next
            case (CTime t)
            have mem: "CTime t # rest |\<in>| dup" using True Cons CTime by simp
            from "1.prems" None Cons CTime resolve_time_step [OF mem nr, of idx]
            have "resolve m dup (CTime (t + 1) # rest) None idx = Inr (s, f')" by simp
            with "1.IH" True None nr Cons CTime show ?thesis by (simp add: restricted_def)
          qed
        qed
      qed
    qed
  qed
qed

lemma normalize_suffix_iff:
  "drop (length pt_k - 2) pt_k = ''_1'' \<longleftrightarrow> (\<exists>k. pt_k = k @ ''_1'')"
proof
  assume "drop (length pt_k - 2) pt_k = ''_1''"
  then have "pt_k = take (length pt_k - 2) pt_k @ ''_1''"
    by (metis append_take_drop_id)
  then show "\<exists>k. pt_k = k @ ''_1''" by blast
next
  assume "\<exists>k. pt_k = k @ ''_1''"
  then show "drop (length pt_k - 2) pt_k = ''_1''" by auto
qed

lemma normalize_suffixed: "normalize m (k @ ''_1'') = (if m = ''server_info'' then k @ ''_1'' else k)"
  by (simp add: normalize_def)

lemmas run_simps =
  convert_measurement_def process_point_def emit_point_def tag_keys_def tag_keys_table_def field_keys_def
  field_keys_table_def build_series.simps(2) classify.simps(2) resolve.simps py_str_int_def str_nat.simps
  digit_char_def normalize_def Let_def

section \<open>Building the candidate key\<close>

declare build_series.simps(2) [simp del]

lemma build_series_Cons:
  "build_series m pt (a # ks) (s0, f0, i0) =
    (case map_of (attrs pt) a of
       Some v \<Rightarrow> build_series m pt ks (s0 @ [CStr (py_str v)], f0, i0)
     | None \<Rightarrow>
         if a = ''server_id'' \<and> restricted m
         then build_series m pt ks (s0 @ [CStr (py_str_int 1)], Some 1, Some (length s0))
         else Inl (MissingDeclaredTag a))"
proof (cases "map_of (attrs pt) a")
  case (Some v)
  then show ?thesis by (simp add: build_series.simps(2))
next
  case None
  show ?thesis
  proof (cases "a = ''server_id'' \<and> restricted m")
    case True
    then have "\<not> (a \<noteq> ''server_id'' \<or>
        (m \<noteq> ''client_buffer'' \<and> m \<noteq> ''video_sent'' \<and> m \<noteq> ''video_acked''))"
      unfolding restricted_def by blast
    with None True show ?thesis by (simp only: build_series.simps(2)) simp
  next
    case False
    then have "a \<noteq> ''server_id'' \<or>
        (m \<noteq> ''client_buffer'' \<and> m \<noteq> ''video_sent'' \<and> m \<noteq> ''video_acked'')"
      unfolding restricted_def by blast
    with None False show ?thesis by (simp only: build_series.simps(2)) simp
  qed
qed

lemma build_series_ConsE:
  assumes "build_series m pt (a # ks) (s0, f0, i0) = Inr (s, f, i)"
  obtains (present) v where "map_of (attrs pt) a = Some v"
      and "build_series m pt ks (s0 @ [CStr (py_str v)], f0, i0) = Inr (s, f, i)"
    | (absent) "map_of (attrs pt) a = None" and "a = ''server_id''" and "restricted m"
      and "build_series m pt ks (s0 @ [CStr (py_str_int 1)], Some 1, Some (length s0))
            = Inr (s, f, i)"
proof (cases "map_of (attrs pt) a")
  case None
  with assms have "a = ''server_id'' \<and> restricted m"
    by (simp add: build_series_Cons split: if_splits)
  with assms None show ?thesis by (intro absent) (simp_all add: build_series_Cons)
next
  case (Some v)
  with assms show ?thesis by (intro present [of v]) (simp_all add: build_series_Cons)
qed

lemma build_series_shape:
  "build_series m pt ks (s0, f0, i0) = Inr (s, f, i) \<Longrightarrow>
   s = s0 @ map (\<lambda>k. CStr (case map_of (attrs pt) k of Some v \<Rightarrow> py_str v
                                 | None \<Rightarrow> py_str_int 1)) ks"
proof (induction ks arbitrary: s0 f0 i0)
  case Nil
  then show ?case by simp
next
  case (Cons a ks)
  from Cons.prems show ?case
  proof (cases rule: build_series_ConsE)
    case (present v)
    from Cons.IH [OF present(2)] present(1) show ?thesis by simp
  next
    case absent
    from Cons.IH [OF absent(4)] absent(1) show ?thesis by simp
  qed
qed

lemma build_series_absent_permitted:
  "build_series m pt ks (s0, f0, i0) = Inr (s, f, i) \<Longrightarrow> k \<in> set ks \<Longrightarrow>
   map_of (attrs pt) k = None \<Longrightarrow> k = ''server_id'' \<and> restricted m"
proof (induction ks arbitrary: s0 f0 i0)
  case Nil
  then show ?case by simp
next
  case (Cons a ks)
  from Cons.prems(1) show ?case
  proof (cases rule: build_series_ConsE)
    case (present v)
    with Cons.prems(2,3) have "k \<in> set ks" by auto
    from Cons.IH [OF present(2) this Cons.prems(3)] show ?thesis .
  next
    case absent
    show ?thesis
    proof (cases "k = a")
      case True
      with absent show ?thesis by simp
    next
      case False
      with Cons.prems(2) have "k \<in> set ks" by simp
      from Cons.IH [OF absent(4) this Cons.prems(3)] show ?thesis .
    qed
  qed
qed

lemma build_series_all_present:
  "build_series m pt ks (s0, f0, i0) = Inr (s, f, i) \<Longrightarrow>
   \<forall>k\<in>set ks. map_of (attrs pt) k \<noteq> None \<Longrightarrow> f = f0 \<and> i = i0"
proof (induction ks arbitrary: s0)
  case Nil
  then show ?case by simp
next
  case (Cons a ks)
  from Cons.prems(1) show ?case
  proof (cases rule: build_series_ConsE)
    case (present v)
    from Cons.IH [OF present(2)] Cons.prems(2) show ?thesis by simp
  next
    case absent
    with Cons.prems(2) show ?thesis by simp
  qed
qed

lemma build_series_some_absent:
  "build_series m pt ks (s0, f0, i0) = Inr (s, f, i) \<Longrightarrow> k \<in> set ks \<Longrightarrow>
   map_of (attrs pt) k = None \<Longrightarrow>
   f = Some 1 \<and> (\<exists>j<length ks. map_of (attrs pt) (ks ! j) = None \<and> i = Some (length s0 + j))"
proof (induction ks arbitrary: s0 f0 i0 k)
  case Nil
  then show ?case by simp
next
  case (Cons a ks)
  show ?case
  proof (cases "\<exists>k'\<in>set ks. map_of (attrs pt) k' = None")
    case True
    then obtain k' where k': "k' \<in> set ks" "map_of (attrs pt) k' = None" by blast
    from Cons.prems(1) obtain s1 f1 i1 where
      r: "build_series m pt ks (s1, f1, i1) = Inr (s, f, i)" and l: "length s1 = Suc (length s0)"
      by (cases rule: build_series_ConsE) auto
    from Cons.IH [OF r k'] obtain j where
      "f = Some 1" "j < length ks" "map_of (attrs pt) (ks ! j) = None" "i = Some (length s1 + j)"
      by blast
    with l show ?thesis by (intro conjI exI [of _ "Suc j"]) simp_all
  next
    case False
    with Cons.prems(2,3) have a: "map_of (attrs pt) a = None" by auto
    from False have allp: "\<forall>x\<in>set ks. map_of (attrs pt) x \<noteq> None" by auto
    from Cons.prems(1) a
    have r: "build_series m pt ks (s0 @ [CStr (py_str_int 1)], Some 1, Some (length s0)) = Inr (s, f, i)"
      by (cases rule: build_series_ConsE) auto
    from build_series_all_present [OF r allp] a show ?thesis
      by (intro conjI exI [of _ 0]) simp_all
  qed
qed

lemma build_series_fails:
  "k \<in> set ks \<Longrightarrow> map_of (attrs pt) k = None \<Longrightarrow> \<not> (k = ''server_id'' \<and> restricted m) \<Longrightarrow>
   \<exists>k'. build_series m pt ks st = Inl (MissingDeclaredTag k') \<and> k' \<in> set ks
      \<and> map_of (attrs pt) k' = None \<and> \<not> (k' = ''server_id'' \<and> restricted m)"
proof (induction ks arbitrary: st)
  case Nil
  then show ?case by simp
next
  case (Cons a ks)
  obtain s0 f0 i0 where st: "st = (s0, f0, i0)" by (cases st)
  show ?case
  proof (cases "map_of (attrs pt) a = None \<and> \<not> (a = ''server_id'' \<and> restricted m)")
    case True
    then have "build_series m pt (a # ks) st = Inl (MissingDeclaredTag a)"
      by (auto simp: st build_series_Cons)
    with True show ?thesis by (intro exI [of _ a]) simp
  next
    case False
    with Cons.prems have "k \<in> set ks" by auto
    from Cons.IH [OF this Cons.prems(2,3)]
    have g: "\<exists>k'. build_series m pt ks st' = Inl (MissingDeclaredTag k') \<and> k' \<in> set ks
      \<and> map_of (attrs pt) k' = None \<and> \<not> (k' = ''server_id'' \<and> restricted m)" for st'
      by blast
    show ?thesis
    proof (cases "map_of (attrs pt) a")
      case None
      with False have "build_series m pt (a # ks) st
          = build_series m pt ks (s0 @ [CStr (py_str_int 1)], Some 1, Some (length s0))"
        by (auto simp: st build_series_Cons)
      with g [of "(s0 @ [CStr (py_str_int 1)], Some 1, Some (length s0))"] show ?thesis by auto
    next
      case (Some v)
      then have "build_series m pt (a # ks) st = build_series m pt ks (s0 @ [CStr (py_str v)], f0, i0)"
        by (simp add: st build_series_Cons)
      with g [of "(s0 @ [CStr (py_str v)], f0, i0)"] show ?thesis by auto
    qed
  qed
qed

lemma py_str_int_1: "py_str_int 1 = ''1''"
  by (simp add: py_str_int_def str_nat.simps digit_char_def)

lemma restricted_tag_keys:
  assumes "restricted m"
  shows "tag_keys m = Some [''channel'', ''server_id'']"
proof -
  from assms consider "m = ''client_buffer''" | "m = ''video_sent''" | "m = ''video_acked''"
    unfolding restricted_def by blast
  then show ?thesis
  proof cases
    case 1
    then show ?thesis by (simp add: tag_keys_def tag_keys_table_def)
  next
    case 2
    then show ?thesis by (simp add: tag_keys_def tag_keys_table_def)
  next
    case 3
    then show ?thesis by (simp add: tag_keys_def tag_keys_table_def)
  qed
qed

section \<open>One point: from the raw point to the emitted point\<close>

lemma build_series_present:
  "\<forall>k\<in>set ks. map_of (attrs pt) k \<noteq> None \<Longrightarrow>
   build_series m pt ks (s0, f0, i0) = Inr (s0 @ tag_cells pt ks, f0, i0)"
proof (induction ks arbitrary: s0)
  case Nil
  then show ?case by (simp add: tag_cells_def)
next
  case (Cons a ks)
  from Cons.prems obtain v where v: "map_of (attrs pt) a = Some v" by auto
  from Cons.prems have "\<forall>k\<in>set ks. map_of (attrs pt) k \<noteq> None" by simp
  from Cons.IH [OF this, of "s0 @ [CStr (py_str v)]"] v show ?case
    by (simp add: build_series_Cons tag_cells_def)
qed

lemma build_series_restricted_absent:
  "restricted m \<Longrightarrow> map_of (attrs pt) ''channel'' = Some v \<Longrightarrow>
   map_of (attrs pt) ''server_id'' = None \<Longrightarrow>
   build_series m pt [''channel'', ''server_id''] ([CTime t], None, None)
     = Inr ([CTime t, CStr (py_str v), CStr ''1''], Some 1, Some 2)"
  by (simp add: build_series_Cons py_str_int_1)

lemma emit_point_Inr:
  assumes "emit_point coerce m tks dup series fake pt = Inr (p, dup')"
  shows "dup' = finsert series dup \<and> measurement p = m \<and> (\<exists>rest. series = ptime p # rest)"
proof (cases series)
  case Nil
  with assms show ?thesis by (simp add: emit_point_def)
next
  case (Cons c rest)
  with assms show ?thesis
    by (auto simp: emit_point_def split: option.splits sum.splits)
qed

lemma process_point_shift:
  assumes "tag_keys m = Some tks" and "\<forall>k\<in>set tks. map_of (attrs pt) k \<noteq> None"
    and "\<not> restricted m"
  shows "\<exists>n::nat. CTime (time pt + int n) # tag_cells pt tks |\<notin>| dup
    \<and> (\<forall>j<n. CTime (time pt + int j) # tag_cells pt tks |\<in>| dup)
    \<and> process_point coerce m dup pt
        = emit_point coerce m tks dup (CTime (time pt + int n) # tag_cells pt tks) None pt"
proof -
  have b: "build_series m pt tks ([CTime (time pt)], None, None)
      = Inr (CTime (time pt) # tag_cells pt tks, None, None)"
    using build_series_present [OF assms(2), of m "[CTime (time pt)]"] by simp
  from resolve_time_least [OF assms(3), of dup "time pt" "tag_cells pt tks" None]
  obtain n :: nat where
    r: "resolve m dup (CTime (time pt) # tag_cells pt tks) None None
          = Inr (CTime (time pt + int n) # tag_cells pt tks, None)"
    and fr: "CTime (time pt + int n) # tag_cells pt tks |\<notin>| dup"
    and bl: "\<forall>j<n. CTime (time pt + int j) # tag_cells pt tks |\<in>| dup"
    by blast
  from assms(1) b r have "process_point coerce m dup pt
        = emit_point coerce m tks dup (CTime (time pt + int n) # tag_cells pt tks) None pt"
    by (simp add: process_point_def)
  with fr bl show ?thesis by blast
qed

lemma process_point_no_shift:
  assumes "tag_keys m = Some tks" and "\<forall>k\<in>set tks. map_of (attrs pt) k \<noteq> None"
    and "restricted m"
  shows "process_point coerce m dup pt =
    (if CTime (time pt) # tag_cells pt tks |\<in>| dup then Inl (UnresolvableCollision m)
     else emit_point coerce m tks dup (CTime (time pt) # tag_cells pt tks) None pt)"
proof -
  have b: "build_series m pt tks ([CTime (time pt)], None, None)
      = Inr (CTime (time pt) # tag_cells pt tks, None, None)"
    using build_series_present [OF assms(2), of m "[CTime (time pt)]"] by simp
  show ?thesis
  proof (cases "CTime (time pt) # tag_cells pt tks |\<in>| dup")
    case True
    from resolve_restricted [OF True assms(3)] assms(1) b True show ?thesis
      by (simp add: process_point_def)
  next
    case False
    from resolve_fresh [OF False] assms(1) b False show ?thesis
      by (simp add: process_point_def)
  qed
qed

lemma process_point_synthetic:
  assumes "restricted m" and "map_of (attrs pt) ''channel'' = Some v"
    and "map_of (attrs pt) ''server_id'' = None"
  shows "\<exists>n::nat.
      [CTime (time pt), CStr (py_str v), CStr (py_str_int (1 + int n))] |\<notin>| dup
    \<and> (\<forall>j<n. [CTime (time pt), CStr (py_str v), CStr (py_str_int (1 + int j))] |\<in>| dup)
    \<and> process_point coerce m dup pt
        = emit_point coerce m [''channel'', ''server_id''] dup
            [CTime (time pt), CStr (py_str v), CStr (py_str_int (1 + int n))]
            (Some (1 + int n)) pt"
proof -
  let ?s = "[CTime (time pt), CStr (py_str v), CStr ''1'']"
  have upd: "?s[2 := c] = [CTime (time pt), CStr (py_str v), c]" for c
    by (simp add: numeral_2_eq_2)
  have "2 < length ?s" by simp
  from resolve_fake_least [OF this, of m dup 1]
  obtain n :: nat where
    r: "resolve m dup (?s[2 := CStr (py_str_int 1)]) (Some 1) (Some 2)
          = Inr (?s[2 := CStr (py_str_int (1 + int n))], Some (1 + int n))"
    and fr: "?s[2 := CStr (py_str_int (1 + int n))] |\<notin>| dup"
    and bl: "\<forall>j<n. ?s[2 := CStr (py_str_int (1 + int j))] |\<in>| dup"
    by blast
  from r have r': "resolve m dup ?s (Some 1) (Some 2)
     = Inr ([CTime (time pt), CStr (py_str v), CStr (py_str_int (1 + int n))], Some (1 + int n))"
    by (simp only: upd py_str_int_1)
  from restricted_tag_keys [OF assms(1)] build_series_restricted_absent [OF assms, of "time pt"] r'
  have "process_point coerce m dup pt
        = emit_point coerce m [''channel'', ''server_id''] dup
            [CTime (time pt), CStr (py_str v), CStr (py_str_int (1 + int n))]
            (Some (1 + int n)) pt"
    by (simp add: process_point_def)
  with fr bl show ?thesis by (simp only: upd) blast
qed

lemma py_str_int_2: "py_str_int 2 = ''2''"
  by (simp add: py_str_int_def str_nat.simps digit_char_def)

section \<open>The loop over the points\<close>

lemma convert_points_invariant:
  assumes step: "\<And>dup pre pt p dup' es.
      I dup pre es \<Longrightarrow> pt \<in> S \<Longrightarrow> process_point coerce m dup pt = Inr (p, dup') \<Longrightarrow>
      I dup' (pre @ [pt]) (es @ [p])"
    and sub: "set pts \<subseteq> S"
    and init: "I (dup_check st) pre0 (emitted st)"
    and run: "convert_points coerce m pts st = (eo, st')"
  shows "\<exists>k\<le>length pts. I (dup_check st') (pre0 @ take k pts) (emitted st')
            \<and> (eo = None \<longrightarrow> k = length pts)"
  using sub init run
proof (induction pts arbitrary: st pre0)
  case Nil
  then show ?case by simp
next
  case (Cons pt pts)
  from Cons.prems(1) have inS: "pt \<in> S" and sub': "set pts \<subseteq> S" by simp_all
  show ?case
  proof (cases "process_point coerce m (dup_check st) pt")
    case (Inl e)
    with Cons.prems have "st' = st" "eo = Some e" by auto
    with Cons.prems(2) show ?thesis by (intro exI [of _ 0]) simp
  next
    case (Inr r)
    obtain p dup' where r: "r = (p, dup')" by (cases r)
    let ?st1 = "if length (json_body st @ [p]) \<ge> 1000
        then \<lparr>json_body = [], dup_check = dup', written = written st @ [json_body st @ [p]]\<rparr>
        else \<lparr>json_body = json_body st @ [p], dup_check = dup', written = written st\<rparr>"
    have e1: "emitted ?st1 = emitted st @ [p]" by (simp add: emitted_def)
    have d1: "dup_check ?st1 = dup'" by simp
    from step [OF Cons.prems(2) inS] Inr r have "I dup' (pre0 @ [pt]) (emitted st @ [p])"
      by simp
    with e1 d1 have i1: "I (dup_check ?st1) (pre0 @ [pt]) (emitted ?st1)" by simp
    from Cons.prems(3) Inr r have run1: "convert_points coerce m pts ?st1 = (eo, st')"
      by (simp split: if_splits)
    from Cons.IH [OF sub' i1 run1] obtain k where
      k: "k \<le> length pts" "I (dup_check st') ((pre0 @ [pt]) @ take k pts) (emitted st')"
        "eo = None \<longrightarrow> k = length pts"
      by blast
    then show ?thesis by (intro exI [of _ "Suc k"]) simp
  qed
qed

lemma convert_measurement_emitted:
  assumes "convert_points coerce m pts \<lparr>json_body = [], dup_check = {||}, written = []\<rparr> = (eo, st')"
  shows "fst (convert_measurement coerce m pts) = eo
    \<and> (\<exists>j. concat (snd (convert_measurement coerce m pts)) = take j (emitted st'))"
proof (cases eo)
  case None
  with assms have "concat (snd (convert_measurement coerce m pts)) = emitted st'"
    by (simp add: convert_measurement_def emitted_def)
  then have "concat (snd (convert_measurement coerce m pts)) = take (length (emitted st')) (emitted st')"
    by simp
  moreover from assms None have "fst (convert_measurement coerce m pts) = eo"
    by (simp add: convert_measurement_def)
  ultimately show ?thesis by blast
next
  case (Some e)
  with assms have "concat (snd (convert_measurement coerce m pts)) = concat (written st')"
    by (simp add: convert_measurement_def)
  then have "concat (snd (convert_measurement coerce m pts))
      = take (length (concat (written st'))) (emitted st')"
    by (simp add: emitted_def)
  moreover from assms Some have "fst (convert_measurement coerce m pts) = eo"
    by (simp add: convert_measurement_def)
  ultimately show ?thesis by blast
qed

lemma restricted_ptime:
  assumes r: "restricted m" and p: "process_point coerce m dup pt = Inr (p, dup')"
  shows "ptime p = CTime (time pt)"
proof -
  have tk: "tag_keys m = Some [''channel'', ''server_id'']" using r by (rule restricted_tag_keys)
  show ?thesis
  proof (cases "map_of (attrs pt) ''channel''")
    case None
    then have "build_series m pt [''channel'', ''server_id''] ([CTime (time pt)], None, None)
        = Inl (MissingDeclaredTag ''channel'')"
      by (simp add: build_series_Cons)
    with tk p show ?thesis by (simp add: process_point_def)
  next
    case (Some v)
    show ?thesis
    proof (cases "map_of (attrs pt) ''server_id''")
      case None
      from process_point_synthetic [OF r Some None, of dup coerce] p
      obtain n :: nat where
        "emit_point coerce m [''channel'', ''server_id''] dup
            [CTime (time pt), CStr (py_str v), CStr (py_str_int (1 + int n))]
            (Some (1 + int n)) pt = Inr (p, dup')"
        by auto
      from emit_point_Inr [OF this] show ?thesis by auto
    next
      case (Some w)
      with \<open>map_of (attrs pt) ''channel'' = Some v\<close>
      have pres: "\<forall>k\<in>set [''channel'', ''server_id'']. map_of (attrs pt) k \<noteq> None" by simp
      from process_point_no_shift [OF tk pres r, of coerce dup] p
      have "emit_point coerce m [''channel'', ''server_id''] dup
          (CTime (time pt) # tag_cells pt [''channel'', ''server_id'']) None pt = Inr (p, dup')"
        by (simp split: if_splits)
      from emit_point_Inr [OF this] show ?thesis by auto
    qed
  qed
qed

lemma restricted_times_kept:
  assumes r: "restricted m"
  shows "\<exists>k. map ptime (concat (snd (convert_measurement coerce m pts)))
            = map (\<lambda>pt. CTime (time pt)) (take k pts)"
proof -
  let ?st0 = "\<lparr>json_body = [], dup_check = {||}, written = []\<rparr>"
  define I where "I = (\<lambda>(dup :: series fset) (pre :: raw_point list) (es :: point list).
    map ptime es = map (\<lambda>pt. CTime (time pt)) pre)"
  obtain eo st' where run: "convert_points coerce m pts ?st0 = (eo, st')"
    by (cases "convert_points coerce m pts ?st0")
  have step: "I dup' (pre @ [pt]) (es @ [p])"
    if "I dup pre es" "process_point coerce m dup pt = Inr (p, dup')" for dup pre pt p dup' es
    using that restricted_ptime [OF r that(2)] by (simp add: I_def)
  have init: "I (dup_check ?st0) [] (emitted ?st0)" by (simp add: emitted_def I_def)
  have "\<exists>k\<le>length pts. I (dup_check st') ([] @ take k pts) (emitted st')
      \<and> (eo = None \<longrightarrow> k = length pts)"
  proof (rule convert_points_invariant [of I UNIV, OF _ _ init run])
    fix dup pre pt p dup' es
    assume "I dup pre es" and "process_point coerce m dup pt = Inr (p, dup')"
    then show "I dup' (pre @ [pt]) (es @ [p])" by (rule step)
  qed simp
  then obtain k where k: "map ptime (emitted st') = map (\<lambda>pt. CTime (time pt)) (take k pts)"
    by (auto simp: I_def)
  from convert_measurement_emitted [OF run] obtain j where
    j: "concat (snd (convert_measurement coerce m pts)) = take j (emitted st')" by blast
  have "map ptime (take j (emitted st')) = take j (map ptime (emitted st'))"
    by (simp add: take_map)
  also have "\<dots> = map (\<lambda>pt. CTime (time pt)) (take j (take k pts))"
    by (simp add: k take_map)
  also have "\<dots> = map (\<lambda>pt. CTime (time pt)) (take (min j k) pts)" by simp
  finally show ?thesis using j by metis
qed

section \<open>Classifying the entries of a point\<close>

declare classify.simps(2) [simp del]

lemma classify_Cons:
  "classify coerce m tks fks ((a, v) # rest) (tags, fields') =
    (if a = ''time'' \<or> v = VNone then classify coerce m tks fks rest (tags, fields')
     else if normalize m a \<in> set tks
       then classify coerce m tks fks rest (tags(normalize m a \<mapsto> py_str v), fields')
     else
       (case map_of fks (normalize m a) of
          None \<Rightarrow> Inl (UnclassifiableKey (normalize m a))
        | Some ty \<Rightarrow>
            (case coerce ty v of
               None \<Rightarrow> Inl (TypeCoercionFailure (normalize m a))
             | Some w \<Rightarrow> classify coerce m tks fks rest (tags, fields'(normalize m a \<mapsto> w)))))"
  by (simp add: classify.simps(2) Let_def)

lemma classify_ConsE:
  assumes "classify coerce m tks fks ((a, v) # rest) (t0, f0) = Inr (t1, f1)"
  obtains (skip) "\<not> live (a, v)" and "classify coerce m tks fks rest (t0, f0) = Inr (t1, f1)"
    | (tag) "live (a, v)" and "normalize m a \<in> set tks"
        and "classify coerce m tks fks rest (t0(normalize m a \<mapsto> py_str v), f0) = Inr (t1, f1)"
    | (field) ty w where "live (a, v)" and "normalize m a \<notin> set tks"
        and "map_of fks (normalize m a) = Some ty" and "coerce ty v = Some w"
        and "classify coerce m tks fks rest (t0, f0(normalize m a \<mapsto> w)) = Inr (t1, f1)"
proof (cases "live (a, v)")
  case False
  with assms show ?thesis by (intro skip) (auto simp: classify_Cons live_def)
next
  case True
  then have l: "a \<noteq> ''time''" "v \<noteq> VNone" by (simp_all add: live_def)
  show ?thesis
  proof (cases "normalize m a \<in> set tks")
    case t: True
    with assms l True show ?thesis by (intro tag) (simp_all add: classify_Cons)
  next
    case nt: False
    show ?thesis
    proof (cases "map_of fks (normalize m a)")
      case None
      with assms l nt show ?thesis by (simp add: classify_Cons)
    next
      case (Some ty)
      show ?thesis
      proof (cases "coerce ty v")
        case None
        with assms l nt Some show ?thesis by (simp add: classify_Cons)
      next
        case (Some w)
        with assms l nt \<open>map_of fks (normalize m a) = Some ty\<close> True show ?thesis
          by (intro field [of ty w]) (simp_all add: classify_Cons)
      qed
    qed
  qed
qed

lemma classify_tag_untouched:
  "classify coerce m tks fks ats (t0, f0) = Inr (t1, f1) \<Longrightarrow>
   \<forall>e\<in>set ats. live e \<longrightarrow> normalize m (fst e) \<noteq> k \<Longrightarrow> t1 k = t0 k"
proof (induction ats arbitrary: t0 f0)
  case Nil
  then show ?case by simp
next
  case (Cons e ats)
  obtain a v where e: "e = (a, v)" by (cases e)
  from Cons.prems(2) have rest: "\<forall>e\<in>set ats. live e \<longrightarrow> normalize m (fst e) \<noteq> k" by simp
  from Cons.prems(1) [unfolded e] show ?case
  proof (cases rule: classify_ConsE)
    case skip
    from Cons.IH [OF skip(2) rest] show ?thesis .
  next
    case tag
    from Cons.prems(2) tag(1) e have "normalize m a \<noteq> k" by auto
    with Cons.IH [OF tag(3) rest] show ?thesis by simp
  next
    case (field ty w)
    from Cons.IH [OF field(5) rest] show ?thesis .
  qed
qed








lemma normalize_eq:
  assumes "normalize m a = k"
  shows "a = k \<or> (m \<noteq> ''server_info'' \<and> a = k @ ''_1'')"
proof (cases "m \<noteq> ''server_info'' \<and> drop (length a - 2) a = ''_1''")
  case True
  with assms have "take (length a - 2) a = k" by (simp add: normalize_def)
  moreover have "a = take (length a - 2) a @ drop (length a - 2) a" by simp
  ultimately have "a = k @ ''_1''" using True by metis
  with True show ?thesis by simp
next
  case False
  with assms show ?thesis by (auto simp: normalize_def split: if_splits)
qed

lemma emit_point_classify:
  assumes "emit_point coerce m tks dup series fake pt = Inr (p, dup')"
  shows "\<exists>fks. field_keys m = Some fks
    \<and> classify coerce m tks fks (attrs pt)
        (case fake of Some f \<Rightarrow> [''server_id'' \<mapsto> py_str_int f] | None \<Rightarrow> Map.empty,
         Map.empty) = Inr (ptags p, pfields p)"
proof (cases series)
  case Nil
  with assms show ?thesis by (simp add: emit_point_def)
next
  case (Cons c rest)
  show ?thesis
  proof (cases "field_keys m")
    case None
    with assms Cons show ?thesis by (simp add: emit_point_def)
  next
    case (Some fks)
    let ?t0 = "case fake of Some f \<Rightarrow> [''server_id'' \<mapsto> py_str_int f] | None \<Rightarrow> Map.empty"
    show ?thesis
    proof (cases "classify coerce m tks fks (attrs pt) (?t0, Map.empty)")
      case (Inl e)
      with assms Cons Some show ?thesis by (simp add: emit_point_def)
    next
      case (Inr r)
      obtain t1 f1 where r: "r = (t1, f1)" by (cases r)
      from assms Cons Some Inr r have "p = \<lparr>measurement = m, ptime = c, ptags = t1, pfields = f1\<rparr>"
        by (simp add: emit_point_def)
      then have "ptags p = t1" "pfields p = f1" by simp_all
      with Inr r Some show ?thesis by simp
    qed
  qed
qed

lemma process_point_cases:
  assumes "process_point coerce m dup pt = Inr (p, dup')"
  obtains (synthetic) v n where "restricted m"
      and "tag_keys m = Some [''channel'', ''server_id'']"
      and "map_of (attrs pt) ''channel'' = Some v" and "map_of (attrs pt) ''server_id'' = None"
      and "[CTime (time pt), CStr (py_str v), CStr (py_str_int (1 + int n))] |\<notin>| dup"
      and "emit_point coerce m [''channel'', ''server_id''] dup
            [CTime (time pt), CStr (py_str v), CStr (py_str_int (1 + int n))]
            (Some (1 + int n)) pt = Inr (p, dup')"
    | (genuine) tks n where "tag_keys m = Some tks"
      and "\<forall>k\<in>set tks. map_of (attrs pt) k \<noteq> None"
      and "CTime (time pt + int n) # tag_cells pt tks |\<notin>| dup"
      and "emit_point coerce m tks dup (CTime (time pt + int n) # tag_cells pt tks) None pt
            = Inr (p, dup')"
      and "restricted m \<longrightarrow> n = 0"
proof -
  from assms obtain tks where tk: "tag_keys m = Some tks"
    by (cases "tag_keys m") (simp_all add: process_point_def)
  show ?thesis
  proof (cases "\<forall>k\<in>set tks. map_of (attrs pt) k \<noteq> None")
    case pres: True
    show ?thesis
    proof (cases "restricted m")
      case True
      from process_point_no_shift [OF tk pres True, of coerce dup] assms
      have "CTime (time pt) # tag_cells pt tks |\<notin>| dup"
        and "emit_point coerce m tks dup (CTime (time pt) # tag_cells pt tks) None pt
              = Inr (p, dup')"
        by (simp_all split: if_splits)
      then show ?thesis using tk pres by (intro genuine [of tks 0]) simp_all
    next
      case False
      from process_point_shift [OF tk pres False, of dup coerce] assms
      obtain n :: nat where "CTime (time pt + int n) # tag_cells pt tks |\<notin>| dup"
        and "emit_point coerce m tks dup (CTime (time pt + int n) # tag_cells pt tks) None pt
              = Inr (p, dup')"
        by auto
      then show ?thesis using tk pres False by (intro genuine [of tks n]) simp_all
    qed
  next
    case False
    then obtain k where k: "k \<in> set tks" "map_of (attrs pt) k = None" by blast
    show ?thesis
    proof (cases "k = ''server_id'' \<and> restricted m")
      case False
      from build_series_fails [OF k False, of "([CTime (time pt)], None, None)"]
      obtain k' where "build_series m pt tks ([CTime (time pt)], None, None)
          = Inl (MissingDeclaredTag k')"
        by blast
      with tk assms show ?thesis by (simp add: process_point_def)
    next
      case True
      then have r: "restricted m" and sid: "map_of (attrs pt) ''server_id'' = None"
        using k by simp_all
      from restricted_tag_keys [OF r] have tk2: "tag_keys m = Some [''channel'', ''server_id'']" .
      show ?thesis
      proof (cases "map_of (attrs pt) ''channel''")
        case None
        then have "build_series m pt [''channel'', ''server_id''] ([CTime (time pt)], None, None)
            = Inl (MissingDeclaredTag ''channel'')"
          by (simp add: build_series_Cons)
        with tk2 assms show ?thesis by (simp add: process_point_def)
      next
        case (Some v)
        from process_point_synthetic [OF r Some sid, of dup coerce] assms
        obtain n :: nat where
          "[CTime (time pt), CStr (py_str v), CStr (py_str_int (1 + int n))] |\<notin>| dup"
          and "emit_point coerce m [''channel'', ''server_id''] dup
            [CTime (time pt), CStr (py_str v), CStr (py_str_int (1 + int n))]
            (Some (1 + int n)) pt = Inr (p, dup')"
          by auto
        then show ?thesis using r tk2 Some sid by (intro synthetic [of v n]) simp_all
      qed
    qed
  qed
qed

lemma absent_no_entry: "map_of ats k = None \<Longrightarrow> (k, w) \<notin> set ats"
  by (metis map_of_eq_None_iff fst_conv image_eqI)











lemma classify_tag_value:
  "classify coerce m tks fks ats (t0, f0) = Inr (t1, f1) \<Longrightarrow> distinct (map fst ats) \<Longrightarrow>
   k \<in> set tks \<Longrightarrow> k \<noteq> ''time'' \<Longrightarrow> normalize m k = k \<Longrightarrow>
   \<forall>e\<in>set ats. live e \<longrightarrow> normalize m (fst e) = k \<longrightarrow> fst e = k \<Longrightarrow>
   t1 k = (case map_of ats k of
             Some v \<Rightarrow> if v = VNone then t0 k else Some (py_str v)
           | None \<Rightarrow> t0 k)"
proof (induction ats arbitrary: t0 f0)
  case Nil
  then show ?case by simp
next
  case (Cons e ats)
  obtain a v where e: "e = (a, v)" by (cases e)
  from Cons.prems(2) e have d: "distinct (map fst ats)" and fresh: "a \<notin> fst ` set ats" by simp_all
  from fresh have nomap: "map_of ats a = None" by (simp add: map_of_eq_None_iff)
  from Cons.prems(6) have own: "\<forall>e\<in>set ats. live e \<longrightarrow> normalize m (fst e) = k \<longrightarrow> fst e = k"
    by simp
  note ih = Cons.IH [OF _ d Cons.prems(3,4,5) own]
  from Cons.prems(1) [unfolded e] show ?case
  proof (cases rule: classify_ConsE)
    case skip
    from ih [OF skip(2)] have r: "t1 k = (case map_of ats k of
             Some v \<Rightarrow> if v = VNone then t0 k else Some (py_str v) | None \<Rightarrow> t0 k)" .
    show ?thesis
    proof (cases "a = k")
      case True
      with skip(1) Cons.prems(4) have "v = VNone" by (simp add: live_def)
      with True r nomap show ?thesis by (simp add: e)
    next
      case False
      with r show ?thesis by (simp add: e)
    qed
  next
    case tag
    from ih [OF tag(3)] have r: "t1 k = (case map_of ats k of
             Some v' \<Rightarrow> if v' = VNone then (t0(normalize m a \<mapsto> py_str v)) k else Some (py_str v')
           | None \<Rightarrow> (t0(normalize m a \<mapsto> py_str v)) k)" .
    from tag(1) have vn: "v \<noteq> VNone" by (simp add: live_def)
    show ?thesis
    proof (cases "a = k")
      case True
      with Cons.prems(5) have "normalize m a = k" by simp
      with True r nomap vn show ?thesis by (simp add: e)
    next
      case False
      with Cons.prems(6) tag(1) e have "normalize m a \<noteq> k" by auto
      then have u: "(t0(normalize m a \<mapsto> py_str v)) k = t0 k" by simp
      from False r [unfolded u] show ?thesis by (simp add: e)
    qed
  next
    case (field ty w)
    from ih [OF field(5)] have r: "t1 k = (case map_of ats k of
             Some v \<Rightarrow> if v = VNone then t0 k else Some (py_str v) | None \<Rightarrow> t0 k)" .
    have "a \<noteq> k"
    proof
      assume "a = k"
      with Cons.prems(5) have "normalize m a = k" by simp
      with field(2) Cons.prems(3) show False by simp
    qed
    with r show ?thesis by (simp add: e)
  qed
qed

lemma declared_tag_names:
  assumes "tag_keys m = Some tks" and "k \<in> set tks"
  shows "k = ''channel'' \<or> k = ''server_id'' \<or> k = ''format''"
proof -
  from assms(1) have "(m, tks) \<in> set tag_keys_table"
    unfolding tag_keys_def by (rule map_of_SomeD)
  then have "tks = [''channel'', ''server_id''] \<or> tks = [''channel''] \<or> tks = []
      \<or> tks = [''server_id''] \<or> tks = [''channel'', ''format'']"
    by (simp add: tag_keys_table_def) blast
  with assms(2) show ?thesis by auto
qed

lemma declared_tag_normal:
  assumes "tag_keys m = Some tks" and "k \<in> set tks"
  shows "k \<noteq> ''time'' \<and> normalize m k = k"
  using declared_tag_names [OF assms] by (auto simp: normalize_def)

section \<open>The keys of the emitted points\<close>

lemma ser_of_dedup_key:
  "ser_of tks p = fst (dedup_key tks p)
      # map (\<lambda>x. CStr (case x of Some s \<Rightarrow> s | None \<Rightarrow> ''None'')) (snd (dedup_key tks p))"
  by (simp add: ser_of_def dedup_key_def comp_def)

lemma distinct_map_factor:
  assumes "distinct (map f xs)" and eq: "\<And>x y. g x = g y \<Longrightarrow> f x = f y"
  shows "distinct (map g xs)"
  using assms(1)
proof (induction xs)
  case Nil
  then show ?case by simp
next
  case (Cons x xs)
  from Cons.prems have nx: "f x \<notin> f ` set xs" and d: "distinct (map f xs)" by simp_all
  have "g x \<notin> g ` set xs"
  proof
    assume "g x \<in> g ` set xs"
    then obtain y where y: "y \<in> set xs" and gy: "g x = g y" by (auto simp: image_iff)
    from eq [OF gy] have "f x = f y" .
    with y have "f x \<in> f ` set xs" by simp
    with nx show False by contradiction
  qed
  moreover from d have "distinct (map g xs)" by (rule Cons.IH)
  ultimately show ?case by simp
qed

lemma process_point_key:
  assumes pp: "process_point coerce m dup pt = Inr (p, dup')"
    and tk: "tag_keys m = Some tks"
    and d: "distinct (map fst (attrs pt))"
    and own: "\<forall>e\<in>set (attrs pt). live e \<longrightarrow> normalize m (fst e) \<in> set tks
              \<longrightarrow> normalize m (fst e) = fst e"
  shows "dup' = finsert (ser_of tks p) dup \<and> ser_of tks p |\<notin>| dup"
proof -
  have own': "\<forall>e\<in>set (attrs pt). live e \<longrightarrow> normalize m (fst e) = k \<longrightarrow> fst e = k"
    if "k \<in> set tks" for k
    using own that by auto
  have val: "ptags p k = (case map_of (attrs pt) k of
                 Some v \<Rightarrow> if v = VNone then t0 k else Some (py_str v) | None \<Rightarrow> t0 k)"
    if "classify coerce m tks fks (attrs pt) (t0, Map.empty) = Inr (ptags p, pfields p)"
      and "k \<in> set tks" for fks t0 k
    using classify_tag_value [OF that(1) d that(2) _ _ own' [OF that(2)]]
      declared_tag_normal [OF tk that(2)] by simp
  from pp show ?thesis
  proof (cases rule: process_point_cases)
    case (synthetic v n)
    let ?s = "py_str_int (1 + int n)"
    from synthetic(2) tk have tks: "tks = [''channel'', ''server_id'']" by simp
    from emit_point_classify [OF synthetic(6)] tks obtain fks where
      c: "classify coerce m tks fks (attrs pt) ([''server_id'' \<mapsto> ?s], Map.empty)
            = Inr (ptags p, pfields p)"
      by auto
    from val [OF c, of "''channel''"] tks synthetic(3)
    have ch: "ptags p ''channel'' = (if v = VNone then None else Some (py_str v))" by simp
    from val [OF c, of "''server_id''"] tks synthetic(4)
    have si: "ptags p ''server_id'' = Some ?s" by simp
    from emit_point_Inr [OF synthetic(6)]
    have e: "dup' = finsert [CTime (time pt), CStr (py_str v), CStr ?s] dup"
      "ptime p = CTime (time pt)"
      by simp_all
    from ch si e(2) tks have "ser_of tks p = [CTime (time pt), CStr (py_str v), CStr ?s]"
      by (simp add: ser_of_def)
    with e(1) synthetic(5) show ?thesis by simp
  next
    case (genuine tks' n)
    from genuine(1) tk have tks: "tks' = tks" by simp
    from emit_point_classify [OF genuine(4)] tks obtain fks where
      c: "classify coerce m tks fks (attrs pt) (Map.empty, Map.empty) = Inr (ptags p, pfields p)"
      by auto
    from emit_point_Inr [OF genuine(4)] tks
    have e: "dup' = finsert (CTime (time pt + int n) # tag_cells pt tks) dup"
      "ptime p = CTime (time pt + int n)"
      by simp_all
    have "map (\<lambda>k. CStr (case ptags p k of Some s \<Rightarrow> s | None \<Rightarrow> ''None'')) tks = tag_cells pt tks"
      unfolding tag_cells_def
    proof (rule map_cong [OF refl])
      fix k assume k: "k \<in> set tks"
      with genuine(2) tks obtain v where v: "map_of (attrs pt) k = Some v" by auto
      from val [OF c k] v have "ptags p k = (if v = VNone then None else Some (py_str v))"
        by simp
      with v show "CStr (case ptags p k of Some s \<Rightarrow> s | None \<Rightarrow> ''None'')
          = CStr (case map_of (attrs pt) k of Some v \<Rightarrow> py_str v | None \<Rightarrow> py_str_int 1)"
        by simp
    qed
    with e(2) have "ser_of tks p = CTime (time pt + int n) # tag_cells pt tks"
      by (simp add: ser_of_def)
    with e(1) genuine(3) tks show ?thesis by simp
  qed
qed

lemma emitted_sers_distinct:
  assumes tk: "tag_keys m = Some tks"
    and wf: "\<forall>pt\<in>set pts. distinct (map fst (attrs pt))
        \<and> (\<forall>e\<in>set (attrs pt). live e \<longrightarrow> normalize m (fst e) \<in> set tks
              \<longrightarrow> normalize m (fst e) = fst e)"
  shows "distinct (map (ser_of tks) (concat (snd (convert_measurement coerce m pts))))"
proof -
  let ?st0 = "\<lparr>json_body = [], dup_check = {||}, written = []\<rparr>"
  define I where "I = (\<lambda>(dup :: series fset) (pre :: raw_point list) (es :: point list).
    distinct (map (ser_of tks) es) \<and> set (map (ser_of tks) es) \<subseteq> fset dup)"
  obtain eo st' where run: "convert_points coerce m pts ?st0 = (eo, st')"
    by (cases "convert_points coerce m pts ?st0")
  have init: "I (dup_check ?st0) [] (emitted ?st0)" by (simp add: emitted_def I_def)
  have "\<exists>k\<le>length pts. I (dup_check st') ([] @ take k pts) (emitted st')
      \<and> (eo = None \<longrightarrow> k = length pts)"
  proof (rule convert_points_invariant [of I "set pts", OF _ _ init run])
    fix dup pre pt p dup' es
    assume i: "I dup pre es" and mem: "pt \<in> set pts"
      and pp: "process_point coerce m dup pt = Inr (p, dup')"
    from wf mem have "distinct (map fst (attrs pt))"
      and "\<forall>e\<in>set (attrs pt). live e \<longrightarrow> normalize m (fst e) \<in> set tks
              \<longrightarrow> normalize m (fst e) = fst e"
      by simp_all
    from process_point_key [OF pp tk this]
    have k: "dup' = finsert (ser_of tks p) dup" "ser_of tks p |\<notin>| dup" by simp_all
    from i have di: "distinct (map (ser_of tks) es)"
      and su: "set (map (ser_of tks) es) \<subseteq> fset dup"
      by (simp_all add: I_def)
    from su k(2) have "ser_of tks p \<notin> set (map (ser_of tks) es)" by auto
    with di su k(1) show "I dup' (pre @ [pt]) (es @ [p])" by (auto simp: I_def)
  qed simp
  then have dis: "distinct (map (ser_of tks) (emitted st'))" by (auto simp: I_def)
  from convert_measurement_emitted [OF run] obtain j where
    j: "concat (snd (convert_measurement coerce m pts)) = take j (emitted st')" by blast
  have "distinct (take j (map (ser_of tks) (emitted st')))" using dis by (rule distinct_take)
  then show ?thesis by (simp add: j take_map)
qed

section \<open>Classifying: when it succeeds, where it stops, what it stores\<close>


lemma classify_step_good:
  assumes "live (a, v) \<longrightarrow> classifiable coerce m tks fks (a, v)"
  shows "\<exists>st'. classify coerce m tks fks ((a, v) # rest) (t0, f0)
            = classify coerce m tks fks rest st'"
proof (cases "live (a, v)")
  case False
  then have "classify coerce m tks fks ((a, v) # rest) (t0, f0)
      = classify coerce m tks fks rest (t0, f0)"
    by (auto simp: classify_Cons live_def)
  then show ?thesis by blast
next
  case True
  then have l: "a \<noteq> ''time''" "v \<noteq> VNone" by (simp_all add: live_def)
  show ?thesis
  proof (cases "normalize m a \<in> set tks")
    case t: True
    with l have "classify coerce m tks fks ((a, v) # rest) (t0, f0)
        = classify coerce m tks fks rest (t0(normalize m a \<mapsto> py_str v), f0)"
      by (simp add: classify_Cons)
    then show ?thesis by blast
  next
    case nt: False
    with assms True obtain ty w where "map_of fks (normalize m a) = Some ty" "coerce ty v = Some w"
      by (auto simp: classifiable_def split: option.splits)
    with l nt have "classify coerce m tks fks ((a, v) # rest) (t0, f0)
        = classify coerce m tks fks rest (t0, f0(normalize m a \<mapsto> w))"
      by (simp add: classify_Cons)
    then show ?thesis by blast
  qed
qed

lemma classify_succeeds:
  "\<forall>e\<in>set ats. live e \<longrightarrow> classifiable coerce m tks fks e \<Longrightarrow>
   \<exists>t1 f1. classify coerce m tks fks ats st = Inr (t1, f1)"
proof (induction ats arbitrary: st)
  case Nil
  obtain t0 f0 where "st = (t0, f0)" by (cases st)
  then show ?case by simp
next
  case (Cons x ats)
  obtain a v where x: "x = (a, v)" by (cases x)
  obtain t0 f0 where st: "st = (t0, f0)" by (cases st)
  from Cons.prems x have "live (a, v) \<longrightarrow> classifiable coerce m tks fks (a, v)" by simp
  from classify_step_good [OF this, of ats t0 f0] obtain st' where
    "classify coerce m tks fks (x # ats) st = classify coerce m tks fks ats st'"
    unfolding x st by blast
  moreover from Cons.prems have "\<forall>e\<in>set ats. live e \<longrightarrow> classifiable coerce m tks fks e"
    by simp
  from Cons.IH [OF this, of st'] have "\<exists>t1 f1. classify coerce m tks fks ats st' = Inr (t1, f1)" .
  ultimately show ?case by simp
qed



lemma emit_point_Cons:
  "field_keys m = Some fks \<Longrightarrow>
   emit_point coerce m tks dup (c # rest) fake pt =
    (case classify coerce m tks fks (attrs pt)
            (case fake of Some f \<Rightarrow> [''server_id'' \<mapsto> py_str_int f] | None \<Rightarrow> Map.empty,
             Map.empty) of
       Inl e \<Rightarrow> Inl e
     | Inr (tags, fields') \<Rightarrow>
         Inr (\<lparr>measurement = m, ptime = c, ptags = tags, pfields = fields'\<rparr>,
              finsert (c # rest) dup))"
  by (simp add: emit_point_def)

lemma process_point_reaches_emit:
  assumes tk: "tag_keys m = Some tks"
    and perm: "\<forall>k\<in>set tks. map_of (attrs pt) k = None \<longrightarrow> k = ''server_id'' \<and> restricted m"
    and nocol: "\<not> (restricted m \<and> (\<forall>k\<in>set tks. map_of (attrs pt) k \<noteq> None)
                  \<and> CTime (time pt) # tag_cells pt tks |\<in>| dup)"
  shows "\<exists>c rest fake. process_point coerce m dup pt
            = emit_point coerce m tks dup (c # rest) fake pt"
proof (cases "\<forall>k\<in>set tks. map_of (attrs pt) k \<noteq> None")
  case pres: True
  show ?thesis
  proof (cases "restricted m")
    case True
    with pres nocol have "CTime (time pt) # tag_cells pt tks |\<notin>| dup" by simp
    with process_point_no_shift [OF tk pres True, of coerce dup] show ?thesis by auto
  next
    case False
    from process_point_shift [OF tk pres False, of dup coerce] show ?thesis by blast
  qed
next
  case False
  then obtain k where k: "k \<in> set tks" "map_of (attrs pt) k = None" by blast
  with perm have r: "restricted m" and sid: "map_of (attrs pt) ''server_id'' = None" by auto
  from restricted_tag_keys [OF r] tk have tks: "tks = [''channel'', ''server_id'']" by simp
  have "map_of (attrs pt) ''channel'' \<noteq> None"
  proof
    assume "map_of (attrs pt) ''channel'' = None"
    with perm tks have "''channel'' = ''server_id''" by simp
    then show False by simp
  qed
  then obtain v where v: "map_of (attrs pt) ''channel'' = Some v" by auto
  from process_point_synthetic [OF r v sid, of dup coerce] tks show ?thesis by blast
qed



lemma process_point_succeeds:
  assumes tk: "tag_keys m = Some tks" and fk: "field_keys m = Some fks"
    and perm: "\<forall>k\<in>set tks. map_of (attrs pt) k = None \<longrightarrow> k = ''server_id'' \<and> restricted m"
    and nocol: "\<not> (restricted m \<and> (\<forall>k\<in>set tks. map_of (attrs pt) k \<noteq> None)
                  \<and> CTime (time pt) # tag_cells pt tks |\<in>| dup)"
    and good: "\<forall>e\<in>set (attrs pt). live e \<longrightarrow> classifiable coerce m tks fks e"
  shows "\<exists>p dup'. process_point coerce m dup pt = Inr (p, dup')"
proof -
  from process_point_reaches_emit [OF tk perm nocol, of coerce] obtain c rest fake where
    e: "process_point coerce m dup pt = emit_point coerce m tks dup (c # rest) fake pt"
    by blast
  let ?t0 = "case fake of Some f \<Rightarrow> [''server_id'' \<mapsto> py_str_int f] | None \<Rightarrow> Map.empty"
  from classify_succeeds [OF good, of "(?t0, Map.empty)"] obtain t1 f1 where
    "classify coerce m tks fks (attrs pt) (?t0, Map.empty) = Inr (t1, f1)"
    by blast
  with e emit_point_Cons [OF fk, of coerce tks dup c rest fake pt] show ?thesis by simp
qed


section \<open>Two points with the same time and channel and no \<^verbatim>\<open>server_id\<close>\<close>

lemma server_id_untouched:
  assumes sid: "map_of (attrs pt) ''server_id'' = None"
    and nul: "\<forall>w. (''server_id_1'', w) \<in> set (attrs pt) \<longrightarrow> w = VNone"
  shows "\<forall>e\<in>set (attrs pt). live e \<longrightarrow> normalize m (fst e) \<noteq> ''server_id''"
proof (intro ballI impI notI)
  fix e
  assume e: "e \<in> set (attrs pt)" and l: "live e" and n: "normalize m (fst e) = ''server_id''"
  obtain a w where aw: "e = (a, w)" by (cases e)
  from normalize_eq [OF n] aw have "a = ''server_id'' \<or> a = ''server_id_1''" by auto
  then show False
  proof
    assume "a = ''server_id''"
    with e aw absent_no_entry [OF sid, of w] show False by simp
  next
    assume "a = ''server_id_1''"
    with e aw nul have "w = VNone" by blast
    with l aw show False by (simp add: live_def)
  qed
qed

lemma synthetic_tag_least:
  assumes r: "restricted m" and ch: "map_of (attrs pt) ''channel'' = Some v"
    and sid: "map_of (attrs pt) ''server_id'' = None"
    and nul: "\<forall>w. (''server_id_1'', w) \<in> set (attrs pt) \<longrightarrow> w = VNone"
    and pp: "process_point coerce m dup pt = Inr (p, dup')"
  shows "\<exists>n::nat.
      [CTime (time pt), CStr (py_str v), CStr (py_str_int (1 + int n))] |\<notin>| dup
    \<and> (\<forall>j<n. [CTime (time pt), CStr (py_str v), CStr (py_str_int (1 + int j))] |\<in>| dup)
    \<and> ptags p ''server_id'' = Some (py_str_int (1 + int n))
    \<and> ptime p = CTime (time pt)
    \<and> dup' = finsert [CTime (time pt), CStr (py_str v), CStr (py_str_int (1 + int n))] dup"
proof -
  from process_point_synthetic [OF r ch sid, of dup coerce] pp obtain n :: nat where
    fr: "[CTime (time pt), CStr (py_str v), CStr (py_str_int (1 + int n))] |\<notin>| dup"
    and bl: "\<forall>j<n. [CTime (time pt), CStr (py_str v), CStr (py_str_int (1 + int j))] |\<in>| dup"
    and em: "emit_point coerce m [''channel'', ''server_id''] dup
            [CTime (time pt), CStr (py_str v), CStr (py_str_int (1 + int n))]
            (Some (1 + int n)) pt = Inr (p, dup')"
    by auto
  from emit_point_classify [OF em] obtain fks where
    c: "classify coerce m [''channel'', ''server_id''] fks (attrs pt)
          ([''server_id'' \<mapsto> py_str_int (1 + int n)], Map.empty) = Inr (ptags p, pfields p)"
    by auto
  from classify_tag_untouched [OF c server_id_untouched [OF sid nul]]
  have "ptags p ''server_id'' = Some (py_str_int (1 + int n))" by simp
  moreover from emit_point_Inr [OF em]
  have "dup' = finsert [CTime (time pt), CStr (py_str v), CStr (py_str_int (1 + int n))] dup"
    and "ptime p = CTime (time pt)"
    by simp_all
  ultimately show ?thesis using fr bl by blast
qed

lemma two_points_get_1_and_2:
  assumes r: "restricted m" and t: "time pt2 = time pt1"
    and c1: "map_of (attrs pt1) ''channel'' = Some v"
    and c2: "map_of (attrs pt2) ''channel'' = Some v"
    and s1: "map_of (attrs pt1) ''server_id'' = None"
    and s2: "map_of (attrs pt2) ''server_id'' = None"
    and n1: "\<forall>w. (''server_id_1'', w) \<in> set (attrs pt1) \<longrightarrow> w = VNone"
    and n2: "\<forall>w. (''server_id_1'', w) \<in> set (attrs pt2) \<longrightarrow> w = VNone"
    and p1: "process_point coerce m {||} pt1 = Inr (p1, d1)"
    and p2: "process_point coerce m d1 pt2 = Inr (p2, d2)"
  shows "ptags p1 ''server_id'' = Some ''1'' \<and> ptags p2 ''server_id'' = Some ''2''
    \<and> ptime p1 = CTime (time pt1) \<and> ptime p2 = CTime (time pt1)
    \<and> d1 = {|[CTime (time pt1), CStr (py_str v), CStr ''1'']|}
    \<and> d2 = {|[CTime (time pt1), CStr (py_str v), CStr ''2''],
              [CTime (time pt1), CStr (py_str v), CStr ''1'']|}"
proof -
  let ?key = "\<lambda>x. [CTime (time pt1), CStr (py_str v), CStr (py_str_int x)]"
  from synthetic_tag_least [OF r c1 s1 n1 p1] obtain n :: nat where
    a: "\<forall>j<n. ?key (1 + int j) |\<in>| {||}"
    and a': "ptags p1 ''server_id'' = Some (py_str_int (1 + int n))"
      "ptime p1 = CTime (time pt1)" "d1 = finsert (?key (1 + int n)) {||}"
    by blast
  have n0: "n = 0"
  proof (rule ccontr)
    assume "n \<noteq> 0"
    then have "0 < n" by simp
    with a show False by auto
  qed
  with a' have f1: "ptags p1 ''server_id'' = Some ''1''" and d1: "d1 = {|?key 1|}"
    by (simp_all add: py_str_int_1)
  from synthetic_tag_least [OF r c2 s2 n2 p2] t obtain k :: nat where
    fr: "?key (1 + int k) |\<notin>| d1"
    and bl: "\<forall>j<k. ?key (1 + int j) |\<in>| d1"
    and b': "ptags p2 ''server_id'' = Some (py_str_int (1 + int k))"
      "ptime p2 = CTime (time pt1)" "d2 = finsert (?key (1 + int k)) d1"
    by auto
  have k0: "k \<noteq> 0"
  proof
    assume "k = 0"
    with fr d1 show False by simp
  qed
  have "k < 2"
  proof (rule ccontr)
    assume "\<not> k < 2"
    then have "1 < k" by simp
    with bl have "?key (1 + int 1) |\<in>| d1" by blast
    with d1 have "py_str_int 2 = py_str_int 1" by simp
    then have "(2::int) = 1" by (rule py_str_int_inj)
    then show False by simp
  qed
  with k0 have "k = 1" by simp
  with b' have "ptags p2 ''server_id'' = Some ''2''" "d2 = finsert (?key 2) d1"
    by (simp_all add: py_str_int_2)
  with f1 a'(2) b'(2) d1 show ?thesis by (simp add: py_str_int_1 py_str_int_2)
qed

lemma two_points_run:
  assumes r: "restricted m" and fk: "field_keys m = Some fks" and t: "time pt2 = time pt1"
    and c1: "map_of (attrs pt1) ''channel'' = Some v"
    and c2: "map_of (attrs pt2) ''channel'' = Some v"
    and s1: "map_of (attrs pt1) ''server_id'' = None"
    and s2: "map_of (attrs pt2) ''server_id'' = None"
    and n1: "\<forall>w. (''server_id_1'', w) \<in> set (attrs pt1) \<longrightarrow> w = VNone"
    and n2: "\<forall>w. (''server_id_1'', w) \<in> set (attrs pt2) \<longrightarrow> w = VNone"
    and g1: "\<forall>e\<in>set (attrs pt1). live e
              \<longrightarrow> classifiable coerce m [''channel'', ''server_id''] fks e"
    and g2: "\<forall>e\<in>set (attrs pt2). live e
              \<longrightarrow> classifiable coerce m [''channel'', ''server_id''] fks e"
  shows "\<exists>p1 p2. convert_measurement coerce m [pt1, pt2] = (None, [[p1, p2]])
    \<and> ptags p1 ''server_id'' = Some ''1'' \<and> ptags p2 ''server_id'' = Some ''2''
    \<and> ptime p1 = CTime (time pt1) \<and> ptime p2 = CTime (time pt1)"
proof -
  have tk: "tag_keys m = Some [''channel'', ''server_id'']" using r by (rule restricted_tag_keys)
  have perm1: "\<forall>k\<in>set [''channel'', ''server_id'']. map_of (attrs pt1) k = None
      \<longrightarrow> k = ''server_id'' \<and> restricted m"
    using r c1 by simp
  have perm2: "\<forall>k\<in>set [''channel'', ''server_id'']. map_of (attrs pt2) k = None
      \<longrightarrow> k = ''server_id'' \<and> restricted m"
    using r c2 by simp
  have nocol1: "\<not> (restricted m
      \<and> (\<forall>k\<in>set [''channel'', ''server_id'']. map_of (attrs pt1) k \<noteq> None)
      \<and> CTime (time pt1) # tag_cells pt1 [''channel'', ''server_id''] |\<in>| d)" for d
    using s1 by simp
  have nocol2: "\<not> (restricted m
      \<and> (\<forall>k\<in>set [''channel'', ''server_id'']. map_of (attrs pt2) k \<noteq> None)
      \<and> CTime (time pt2) # tag_cells pt2 [''channel'', ''server_id''] |\<in>| d)" for d
    using s2 by simp
  from process_point_succeeds [OF tk fk perm1 nocol1 g1] obtain p1 d1 where
    p1: "process_point coerce m {||} pt1 = Inr (p1, d1)" by blast
  from process_point_succeeds [OF tk fk perm2 nocol2 g2] obtain p2 d2 where
    p2: "process_point coerce m d1 pt2 = Inr (p2, d2)" by blast
  note res = two_points_get_1_and_2 [OF r t c1 c2 s1 s2 n1 n2 p1 p2]
  have "convert_measurement coerce m [pt1, pt2] = (None, [[p1, p2]])"
    using p1 p2 by (simp add: convert_measurement_def)
  with res show ?thesis by blast
qed

section \<open>Emitted keys when no tag is stored under another key\<close>

text \<open>
  When every raw point is a dict (each key once) in which every entry that the
  classification stores as a tag (not \<^verbatim>\<open>time\<close>, not null, normalized key a declared tag
  key) already has the normalized key as its own key, the emitted tags are the cells of
  the key added to \<^verbatim>\<open>dup_check\<close>, and the written points have pairwise distinct dedup
  keys, whether the run ends or stops at a fatal error.
\<close>

lemma unsuffixed_tags_keys_distinct:
  "tag_keys m = Some tks
   \<and> (\<forall>pt\<in>set pts. distinct (map fst (attrs pt))
        \<and> (\<forall>e\<in>set (attrs pt). live e \<longrightarrow> normalize m (fst e) \<in> set tks
              \<longrightarrow> normalize m (fst e) = fst e))
   \<longrightarrow> distinct (map (dedup_key tks) (concat (snd (convert_measurement coerce m pts))))"
proof
  assume a: "tag_keys m = Some tks
   \<and> (\<forall>pt\<in>set pts. distinct (map fst (attrs pt))
        \<and> (\<forall>e\<in>set (attrs pt). live e \<longrightarrow> normalize m (fst e) \<in> set tks
              \<longrightarrow> normalize m (fst e) = fst e))"
  then have tk: "tag_keys m = Some tks"
    and wf: "\<forall>pt\<in>set pts. distinct (map fst (attrs pt))
        \<and> (\<forall>e\<in>set (attrs pt). live e \<longrightarrow> normalize m (fst e) \<in> set tks
              \<longrightarrow> normalize m (fst e) = fst e)"
    by simp_all
  have d: "distinct (map (ser_of tks) (concat (snd (convert_measurement coerce m pts))))"
    using tk wf by (rule emitted_sers_distinct)
  show "distinct (map (dedup_key tks) (concat (snd (convert_measurement coerce m pts))))"
  proof (rule distinct_map_factor [OF d])
    fix x y :: point
    assume "dedup_key tks x = dedup_key tks y"
    then show "ser_of tks x = ser_of tks y" by (simp add: ser_of_dedup_key)
  qed
qed

section \<open>Claims\<close>

text \<open>
  Claim C6. For every measurement except \<^verbatim>\<open>server_info\<close>, a raw key whose last two
  characters are \<^verbatim>\<open>_1\<close> is classified under the key without that suffix, and every
  other key under its own name; for \<^verbatim>\<open>server_info\<close> no key is changed. So
  \<^verbatim>\<open>cwnd_1\<close> becomes the field \<^verbatim>\<open>cwnd\<close> of a \<^verbatim>\<open>video_sent\<close> point, and \<^verbatim>\<open>server_id_1\<close>
  stays the field \<^verbatim>\<open>server_id_1\<close> of a \<^verbatim>\<open>server_info\<close> point. (The key \<^verbatim>\<open>time\<close> is
  skipped by \<open>classify\<close> before the name is normalized.)
\<close>

theorem normalize_strips_suffix:
  "normalize m pt_k =
     (if m \<noteq> ''server_info'' \<and> (\<exists>k. pt_k = k @ ''_1'') then butlast (butlast pt_k) else pt_k)
   \<and> normalize m (k @ ''_1'') = (if m = ''server_info'' then k @ ''_1'' else k)
   \<and> normalize ''video_sent'' ''cwnd_1'' = ''cwnd''
   \<and> normalize ''server_info'' ''server_id_1'' = ''server_id_1''
   \<and> (\<exists>p d. process_point coerce_plain ''video_sent'' {||}
               \<lparr>time = 0, attrs = [(''channel'', VStr ''abc''), (''server_id'', VStr ''7''),
                                   (''cwnd_1'', VInt 10)]\<rparr> = Inr (p, d)
             \<and> pfields p ''cwnd'' = Some (VInt 10) \<and> pfields p ''cwnd_1'' = None)
   \<and> (\<exists>p d. process_point coerce_plain ''server_info'' {||}
               \<lparr>time = 0, attrs = [(''server_id'', VStr ''7''), (''server_id_1'', VInt 7)]\<rparr>
               = Inr (p, d)
             \<and> ptags p ''server_id'' = Some ''7'' \<and> pfields p ''server_id_1'' = Some (VInt 7))"
proof (intro conjI)
  show "normalize m pt_k =
     (if m \<noteq> ''server_info'' \<and> (\<exists>k. pt_k = k @ ''_1'') then butlast (butlast pt_k) else pt_k)"
  proof (cases "m \<noteq> ''server_info'' \<and> (\<exists>k. pt_k = k @ ''_1'')")
    case True
    then obtain k where k: "pt_k = k @ ''_1''" by blast
    with True show ?thesis by (simp add: normalize_def butlast_append)
  next
    case False
    then show ?thesis using normalize_suffix_iff [of pt_k] by (auto simp: normalize_def)
  qed
  show "normalize m (k @ ''_1'') = (if m = ''server_info'' then k @ ''_1'' else k)"
    by (rule normalize_suffixed)
  show "normalize ''video_sent'' ''cwnd_1'' = ''cwnd''" by (simp add: normalize_def)
  show "normalize ''server_info'' ''server_id_1'' = ''server_id_1''" by (simp add: normalize_def)
  show "\<exists>p d. process_point coerce_plain ''video_sent'' {||}
               \<lparr>time = 0, attrs = [(''channel'', VStr ''abc''), (''server_id'', VStr ''7''),
                                   (''cwnd_1'', VInt 10)]\<rparr> = Inr (p, d)
             \<and> pfields p ''cwnd'' = Some (VInt 10) \<and> pfields p ''cwnd_1'' = None"
    by (simp add: run_simps)
  show "\<exists>p d. process_point coerce_plain ''server_info'' {||}
               \<lparr>time = 0, attrs = [(''server_id'', VStr ''7''), (''server_id_1'', VInt 7)]\<rparr>
               = Inr (p, d)
             \<and> ptags p ''server_id'' = Some ''7'' \<and> pfields p ''server_id_1'' = Some (VInt 7)"
    by (simp add: run_simps)
qed

text \<open>
  Claim C9. The collision loop always ends: for every measurement, every (finite) set of
  seen keys and every candidate key, the loop has returned after at most
  \<open>fcard dup + 2\<close> tests of its condition, that is after at most \<open>fcard dup + 1\<close>
  increments of the synthetic value or of the timestamp; what it returns is a fatal error
  or a key that is not in the seen set. The loop over the points is structural recursion
  over a finite list, so \<open>convert_measurement\<close> returns on every input.
\<close>

theorem resolve_terminates:
  "resolve_fuel (fcard dup + 2) m dup series fake idx = Some (resolve m dup series fake idx)
   \<and> (case resolve m dup series fake idx of Inl e \<Rightarrow> True | Inr (s, f') \<Rightarrow> s |\<notin>| dup)"
proof
  show "resolve_fuel (fcard dup + 2) m dup series fake idx = Some (resolve m dup series fake idx)"
    using ahead_bound [of dup series fake idx] by (intro resolve_fuel_enough) simp
  show "case resolve m dup series fake idx of Inl e \<Rightarrow> True | Inr (s, f') \<Rightarrow> s |\<notin>| dup"
    by (auto split: sum.splits dest: resolve_result_fresh)
qed

text \<open>
  Claim C2. When a declared tag key is absent from a raw point and the key is not
  \<^verbatim>\<open>server_id\<close> in one of \<^verbatim>\<open>client_buffer\<close>, \<^verbatim>\<open>video_sent\<close>, \<^verbatim>\<open>video_acked\<close>, the
  point is rejected with \<open>MissingDeclaredTag\<close> for such a key and the run stops there,
  whatever the seen keys are. In the one permitted case (these three measurements declare
  \<^verbatim>\<open>channel\<close> and \<^verbatim>\<open>server_id\<close>; \<^verbatim>\<open>channel\<close> present, \<^verbatim>\<open>server_id\<close> absent) the
  candidate key is built, with the synthetic value \<^verbatim>\<open>1\<close> printed at the position of
  \<^verbatim>\<open>server_id\<close> (index 2 of the key), which is recorded as the synthetic slot.
\<close>

theorem missing_declared_tag:
  "(tag_keys m = Some tks \<and> k \<in> set tks \<and> map_of (attrs pt) k = None
      \<and> \<not> (k = ''server_id'' \<and> restricted m)
    \<longrightarrow> (\<exists>k'. process_point coerce m dup pt = Inl (MissingDeclaredTag k')
            \<and> convert_points coerce m (pt # pts) st = (Some (MissingDeclaredTag k'), st)
            \<and> k' \<in> set tks \<and> map_of (attrs pt) k' = None
            \<and> \<not> (k' = ''server_id'' \<and> restricted m)))
   \<and> (restricted m \<and> map_of (attrs pt) ''channel'' = Some v
        \<and> map_of (attrs pt) ''server_id'' = None
    \<longrightarrow> tag_keys m = Some [''channel'', ''server_id'']
        \<and> build_series m pt [''channel'', ''server_id''] ([CTime (time pt)], None, None)
            = Inr ([CTime (time pt), CStr (py_str v), CStr ''1''], Some 1, Some 2))"
proof (intro conjI impI)
  assume a: "tag_keys m = Some tks \<and> k \<in> set tks \<and> map_of (attrs pt) k = None
      \<and> \<not> (k = ''server_id'' \<and> restricted m)"
  then obtain k' where
    b: "build_series m pt tks ([CTime (time pt)], None, None) = Inl (MissingDeclaredTag k')"
    and k': "k' \<in> set tks" "map_of (attrs pt) k' = None" "\<not> (k' = ''server_id'' \<and> restricted m)"
    using build_series_fails [of k tks pt m "([CTime (time pt)], None, None)"] by blast
  from a b have p: "process_point coerce m dup pt = Inl (MissingDeclaredTag k')" for dup
    by (simp add: process_point_def)
  then have "convert_points coerce m (pt # pts) st = (Some (MissingDeclaredTag k'), st)"
    by simp
  with p k' show "\<exists>k'. process_point coerce m dup pt = Inl (MissingDeclaredTag k')
            \<and> convert_points coerce m (pt # pts) st = (Some (MissingDeclaredTag k'), st)
            \<and> k' \<in> set tks \<and> map_of (attrs pt) k' = None
            \<and> \<not> (k' = ''server_id'' \<and> restricted m)"
    by blast
next
  assume a: "restricted m \<and> map_of (attrs pt) ''channel'' = Some v
        \<and> map_of (attrs pt) ''server_id'' = None"
  then show "tag_keys m = Some [''channel'', ''server_id'']" by (simp add: restricted_tag_keys)
  from a show "build_series m pt [''channel'', ''server_id''] ([CTime (time pt)], None, None)
            = Inr ([CTime (time pt), CStr (py_str v), CStr ''1''], Some 1, Some 2)"
    by (simp add: build_series_Cons py_str_int_1)
qed

theorem missing_declared_tag_witness:
  "process_point coerce_plain ''ssim'' {||} \<lparr>time = 5, attrs = [(''channel'', VStr ''abc'')]\<rparr>
     = Inl (MissingDeclaredTag ''format'')
   \<and> build_series ''video_acked'' \<lparr>time = 5, attrs = [(''channel'', VStr ''abc'')]\<rparr>
       [''channel'', ''server_id''] ([CTime 5], None, None)
     = Inr ([CTime 5, CStr ''abc'', CStr ''1''], Some 1, Some 2)"
proof
  let ?pt = "\<lparr>time = 5, attrs = [(''channel'', VStr ''abc'')]\<rparr>"
  have t: "tag_keys ''ssim'' = Some [''channel'', ''format'']"
    by (simp add: tag_keys_def tag_keys_table_def)
  have h: "tag_keys ''ssim'' = Some [''channel'', ''format'']
      \<and> ''format'' \<in> set [''channel'', ''format''] \<and> map_of (attrs ?pt) ''format'' = None
      \<and> \<not> (''format'' = ''server_id'' \<and> restricted ''ssim'')"
    using t by simp
  from missing_declared_tag [THEN conjunct1, rule_format, OF h, of coerce_plain "{||}"]
  obtain k' where p: "process_point coerce_plain ''ssim'' {||} ?pt = Inl (MissingDeclaredTag k')"
    and k': "k' \<in> set [''channel'', ''format'']" "map_of (attrs ?pt) k' = None"
    by blast
  from k' have "k' = ''format''" by (auto split: if_splits)
  with p show "process_point coerce_plain ''ssim'' {||} ?pt = Inl (MissingDeclaredTag ''format'')"
    by simp
  have r: "restricted ''video_acked'' \<and> map_of (attrs ?pt) ''channel'' = Some (VStr ''abc'')
      \<and> map_of (attrs ?pt) ''server_id'' = None"
    by (simp add: restricted_def)
  from missing_declared_tag [THEN conjunct2, rule_format, OF r]
  show "build_series ''video_acked'' ?pt [''channel'', ''server_id''] ([CTime 5], None, None)
     = Inr ([CTime 5, CStr ''abc'', CStr ''1''], Some 1, Some 2)"
    by simp
qed

text \<open>
  Claim C3, as the code has it. The claim says that of two \<^verbatim>\<open>client_buffer\<close> points with
  the same time and channel and no \<^verbatim>\<open>server_id\<close> the first is emitted with
  \<^verbatim>\<open>server_id\<close> "1" and the second with "2". Below, both points have no \<^verbatim>\<open>server_id\<close>
  and carry \<^verbatim>\<open>server_id_1\<close> = "7": the keys added to \<^verbatim>\<open>dup_check\<close> end in "1" and "2",
  and line 154 then stores "7" under \<^verbatim>\<open>server_id\<close> in the tags of both emitted points.
\<close>

theorem raw_server_id_1_on_both_points:
  "convert_measurement coerce_plain ''client_buffer''
      [\<lparr>time = 0, attrs = [(''channel'', VStr ''abc''), (''server_id_1'', VStr ''7'')]\<rparr>,
       \<lparr>time = 0, attrs = [(''channel'', VStr ''abc''), (''server_id_1'', VStr ''7'')]\<rparr>]
     = (None,
        [[\<lparr>measurement = ''client_buffer'', ptime = CTime 0,
            ptags = [''server_id'' \<mapsto> ''1'', ''channel'' \<mapsto> ''abc'', ''server_id'' \<mapsto> ''7''],
            pfields = Map.empty\<rparr>,
          \<lparr>measurement = ''client_buffer'', ptime = CTime 0,
            ptags = [''server_id'' \<mapsto> ''2'', ''channel'' \<mapsto> ''abc'', ''server_id'' \<mapsto> ''7''],
            pfields = Map.empty\<rparr>]])
   \<and> [''server_id'' \<mapsto> ''1'', ''channel'' \<mapsto> ''abc'', ''server_id'' \<mapsto> ''7''] ''server_id''
       = Some ''7''
   \<and> [''server_id'' \<mapsto> ''2'', ''channel'' \<mapsto> ''abc'', ''server_id'' \<mapsto> ''7''] ''server_id''
       = Some ''7''"
  by (simp add: run_simps)

text \<open>
  Claim C3, amended. When the key collides and a synthetic \<^verbatim>\<open>server_id\<close> slot exists, the
  loop returns the key whose slot holds the first of the numbers \<open>f\<close>, \<open>f + 1\<close>,
  \<open>f + 2\<close>, ... that gives a key not seen before, and that number as the synthetic value:
  every smaller one gives a seen key. For a point of \<^verbatim>\<open>client_buffer\<close>, \<^verbatim>\<open>video_sent\<close>
  or \<^verbatim>\<open>video_acked\<close> with \<^verbatim>\<open>channel\<close> and no \<^verbatim>\<open>server_id\<close> the numbers start at 1.
  Two points of such a measurement with the same time and channel, no \<^verbatim>\<open>server_id\<close> and
  no non-null \<^verbatim>\<open>server_id_1\<close>, converted one after the other from an empty
  \<^verbatim>\<open>dup_check\<close>, are emitted with \<^verbatim>\<open>server_id\<close> "1" and "2" at the time of the raw
  points: whenever both are emitted, and they are emitted when every entry that is not
  skipped is classifiable.
\<close>

theorem synthetic_server_id_incremented:
  "(i < length series \<longrightarrow>
     (\<exists>n::nat.
        resolve m dup (series[i := CStr (py_str_int f)]) (Some f) (Some i)
          = Inr (series[i := CStr (py_str_int (f + int n))], Some (f + int n))
      \<and> series[i := CStr (py_str_int (f + int n))] |\<notin>| dup
      \<and> (\<forall>j<n. series[i := CStr (py_str_int (f + int j))] |\<in>| dup)))
   \<and> (restricted m \<and> map_of (attrs pt) ''channel'' = Some v
        \<and> map_of (attrs pt) ''server_id'' = None \<longrightarrow>
     (\<exists>n::nat.
        [CTime (time pt), CStr (py_str v), CStr (py_str_int (1 + int n))] |\<notin>| dup
      \<and> (\<forall>j<n. [CTime (time pt), CStr (py_str v), CStr (py_str_int (1 + int j))] |\<in>| dup)
      \<and> process_point coerce m dup pt
          = emit_point coerce m [''channel'', ''server_id''] dup
              [CTime (time pt), CStr (py_str v), CStr (py_str_int (1 + int n))]
              (Some (1 + int n)) pt))
   \<and> (\<exists>p1 p2.
        convert_measurement coerce_plain ''client_buffer''
          [\<lparr>time = 0, attrs = [(''channel'', VStr ''abc'')]\<rparr>,
           \<lparr>time = 0, attrs = [(''channel'', VStr ''abc'')]\<rparr>] = (None, [[p1, p2]])
      \<and> ptime p1 = CTime 0 \<and> ptags p1 ''channel'' = Some ''abc''
      \<and> ptags p1 ''server_id'' = Some ''1''
      \<and> ptime p2 = CTime 0 \<and> ptags p2 ''channel'' = Some ''abc''
      \<and> ptags p2 ''server_id'' = Some ''2'')
   \<and> (restricted m \<and> time pt2 = time pt1
        \<and> map_of (attrs pt1) ''channel'' = Some v \<and> map_of (attrs pt2) ''channel'' = Some v
        \<and> map_of (attrs pt1) ''server_id'' = None \<and> map_of (attrs pt2) ''server_id'' = None
        \<and> (\<forall>w. (''server_id_1'', w) \<in> set (attrs pt1) \<longrightarrow> w = VNone)
        \<and> (\<forall>w. (''server_id_1'', w) \<in> set (attrs pt2) \<longrightarrow> w = VNone)
        \<and> process_point coerce m {||} pt1 = Inr (p1, d1)
        \<and> process_point coerce m d1 pt2 = Inr (p2, d2) \<longrightarrow>
      ptags p1 ''server_id'' = Some ''1'' \<and> ptags p2 ''server_id'' = Some ''2''
      \<and> ptime p1 = CTime (time pt1) \<and> ptime p2 = CTime (time pt1)
      \<and> d1 = {|[CTime (time pt1), CStr (py_str v), CStr ''1'']|}
      \<and> d2 = {|[CTime (time pt1), CStr (py_str v), CStr ''2''],
                [CTime (time pt1), CStr (py_str v), CStr ''1'']|})
   \<and> (restricted m \<and> field_keys m = Some fks \<and> time pt2 = time pt1
        \<and> map_of (attrs pt1) ''channel'' = Some v \<and> map_of (attrs pt2) ''channel'' = Some v
        \<and> map_of (attrs pt1) ''server_id'' = None \<and> map_of (attrs pt2) ''server_id'' = None
        \<and> (\<forall>w. (''server_id_1'', w) \<in> set (attrs pt1) \<longrightarrow> w = VNone)
        \<and> (\<forall>w. (''server_id_1'', w) \<in> set (attrs pt2) \<longrightarrow> w = VNone)
        \<and> (\<forall>e\<in>set (attrs pt1). live e
              \<longrightarrow> classifiable coerce m [''channel'', ''server_id''] fks e)
        \<and> (\<forall>e\<in>set (attrs pt2). live e
              \<longrightarrow> classifiable coerce m [''channel'', ''server_id''] fks e) \<longrightarrow>
      (\<exists>q1 q2. convert_measurement coerce m [pt1, pt2] = (None, [[q1, q2]])
         \<and> ptags q1 ''server_id'' = Some ''1'' \<and> ptags q2 ''server_id'' = Some ''2''
         \<and> ptime q1 = CTime (time pt1) \<and> ptime q2 = CTime (time pt1)))"
proof (intro conjI)
  show "i < length series \<longrightarrow>
     (\<exists>n::nat.
        resolve m dup (series[i := CStr (py_str_int f)]) (Some f) (Some i)
          = Inr (series[i := CStr (py_str_int (f + int n))], Some (f + int n))
      \<and> series[i := CStr (py_str_int (f + int n))] |\<notin>| dup
      \<and> (\<forall>j<n. series[i := CStr (py_str_int (f + int j))] |\<in>| dup))"
    using resolve_fake_least by blast
  show "restricted m \<and> map_of (attrs pt) ''channel'' = Some v
        \<and> map_of (attrs pt) ''server_id'' = None \<longrightarrow>
     (\<exists>n::nat.
        [CTime (time pt), CStr (py_str v), CStr (py_str_int (1 + int n))] |\<notin>| dup
      \<and> (\<forall>j<n. [CTime (time pt), CStr (py_str v), CStr (py_str_int (1 + int j))] |\<in>| dup)
      \<and> process_point coerce m dup pt
          = emit_point coerce m [''channel'', ''server_id''] dup
              [CTime (time pt), CStr (py_str v), CStr (py_str_int (1 + int n))]
              (Some (1 + int n)) pt)"
    using process_point_synthetic by blast
  show "\<exists>p1 p2.
        convert_measurement coerce_plain ''client_buffer''
          [\<lparr>time = 0, attrs = [(''channel'', VStr ''abc'')]\<rparr>,
           \<lparr>time = 0, attrs = [(''channel'', VStr ''abc'')]\<rparr>] = (None, [[p1, p2]])
      \<and> ptime p1 = CTime 0 \<and> ptags p1 ''channel'' = Some ''abc''
      \<and> ptags p1 ''server_id'' = Some ''1''
      \<and> ptime p2 = CTime 0 \<and> ptags p2 ''channel'' = Some ''abc''
      \<and> ptags p2 ''server_id'' = Some ''2''"
    by (simp add: run_simps)
  show "restricted m \<and> time pt2 = time pt1
        \<and> map_of (attrs pt1) ''channel'' = Some v \<and> map_of (attrs pt2) ''channel'' = Some v
        \<and> map_of (attrs pt1) ''server_id'' = None \<and> map_of (attrs pt2) ''server_id'' = None
        \<and> (\<forall>w. (''server_id_1'', w) \<in> set (attrs pt1) \<longrightarrow> w = VNone)
        \<and> (\<forall>w. (''server_id_1'', w) \<in> set (attrs pt2) \<longrightarrow> w = VNone)
        \<and> process_point coerce m {||} pt1 = Inr (p1, d1)
        \<and> process_point coerce m d1 pt2 = Inr (p2, d2) \<longrightarrow>
      ptags p1 ''server_id'' = Some ''1'' \<and> ptags p2 ''server_id'' = Some ''2''
      \<and> ptime p1 = CTime (time pt1) \<and> ptime p2 = CTime (time pt1)
      \<and> d1 = {|[CTime (time pt1), CStr (py_str v), CStr ''1'']|}
      \<and> d2 = {|[CTime (time pt1), CStr (py_str v), CStr ''2''],
                [CTime (time pt1), CStr (py_str v), CStr ''1'']|}"
  proof
    assume a: "restricted m \<and> time pt2 = time pt1
        \<and> map_of (attrs pt1) ''channel'' = Some v \<and> map_of (attrs pt2) ''channel'' = Some v
        \<and> map_of (attrs pt1) ''server_id'' = None \<and> map_of (attrs pt2) ''server_id'' = None
        \<and> (\<forall>w. (''server_id_1'', w) \<in> set (attrs pt1) \<longrightarrow> w = VNone)
        \<and> (\<forall>w. (''server_id_1'', w) \<in> set (attrs pt2) \<longrightarrow> w = VNone)
        \<and> process_point coerce m {||} pt1 = Inr (p1, d1)
        \<and> process_point coerce m d1 pt2 = Inr (p2, d2)"
    show "ptags p1 ''server_id'' = Some ''1'' \<and> ptags p2 ''server_id'' = Some ''2''
      \<and> ptime p1 = CTime (time pt1) \<and> ptime p2 = CTime (time pt1)
      \<and> d1 = {|[CTime (time pt1), CStr (py_str v), CStr ''1'']|}
      \<and> d2 = {|[CTime (time pt1), CStr (py_str v), CStr ''2''],
                [CTime (time pt1), CStr (py_str v), CStr ''1'']|}"
      by (rule two_points_get_1_and_2 [of m pt2 pt1 v coerce p1 d1 p2 d2]) (use a in blast)+
  qed
  show "restricted m \<and> field_keys m = Some fks \<and> time pt2 = time pt1
        \<and> map_of (attrs pt1) ''channel'' = Some v \<and> map_of (attrs pt2) ''channel'' = Some v
        \<and> map_of (attrs pt1) ''server_id'' = None \<and> map_of (attrs pt2) ''server_id'' = None
        \<and> (\<forall>w. (''server_id_1'', w) \<in> set (attrs pt1) \<longrightarrow> w = VNone)
        \<and> (\<forall>w. (''server_id_1'', w) \<in> set (attrs pt2) \<longrightarrow> w = VNone)
        \<and> (\<forall>e\<in>set (attrs pt1). live e
              \<longrightarrow> classifiable coerce m [''channel'', ''server_id''] fks e)
        \<and> (\<forall>e\<in>set (attrs pt2). live e
              \<longrightarrow> classifiable coerce m [''channel'', ''server_id''] fks e) \<longrightarrow>
      (\<exists>q1 q2. convert_measurement coerce m [pt1, pt2] = (None, [[q1, q2]])
         \<and> ptags q1 ''server_id'' = Some ''1'' \<and> ptags q2 ''server_id'' = Some ''2''
         \<and> ptime q1 = CTime (time pt1) \<and> ptime q2 = CTime (time pt1))"
  proof
    assume a: "restricted m \<and> field_keys m = Some fks \<and> time pt2 = time pt1
        \<and> map_of (attrs pt1) ''channel'' = Some v \<and> map_of (attrs pt2) ''channel'' = Some v
        \<and> map_of (attrs pt1) ''server_id'' = None \<and> map_of (attrs pt2) ''server_id'' = None
        \<and> (\<forall>w. (''server_id_1'', w) \<in> set (attrs pt1) \<longrightarrow> w = VNone)
        \<and> (\<forall>w. (''server_id_1'', w) \<in> set (attrs pt2) \<longrightarrow> w = VNone)
        \<and> (\<forall>e\<in>set (attrs pt1). live e
              \<longrightarrow> classifiable coerce m [''channel'', ''server_id''] fks e)
        \<and> (\<forall>e\<in>set (attrs pt2). live e
              \<longrightarrow> classifiable coerce m [''channel'', ''server_id''] fks e)"
    show "\<exists>q1 q2. convert_measurement coerce m [pt1, pt2] = (None, [[q1, q2]])
         \<and> ptags q1 ''server_id'' = Some ''1'' \<and> ptags q2 ''server_id'' = Some ''2''
         \<and> ptime q1 = CTime (time pt1) \<and> ptime q2 = CTime (time pt1)"
      by (rule two_points_run [of m fks pt2 pt1 v coerce]) (use a in blast)+
  qed
qed

theorem synthetic_server_id_incremented_witness:
  "resolve ''client_buffer'' {|[CTime 0, CStr ''abc'', CStr ''1'']|}
      [CTime 0, CStr ''abc'', CStr ''1''] (Some 1) (Some 2)
     = Inr ([CTime 0, CStr ''abc'', CStr ''2''], Some 2)
   \<and> (\<exists>p d. process_point coerce_plain ''video_sent'' {||}
               \<lparr>time = 3, attrs = [(''channel'', VStr ''abc'')]\<rparr> = Inr (p, d)
             \<and> ptags p ''server_id'' = Some ''1''
             \<and> d = {|[CTime 3, CStr ''abc'', CStr ''1'']|})
   \<and> (\<exists>q1 q2. convert_measurement coerce_plain ''video_acked''
          [\<lparr>time = 5, attrs = [(''channel'', VStr ''abc''), (''server_id_1'', VNone),
                              (''video_ts'', VInt 9)]\<rparr>,
           \<lparr>time = 5, attrs = [(''channel'', VStr ''abc''), (''video_ts'', VInt 7)]\<rparr>]
          = (None, [[q1, q2]])
        \<and> ptags q1 ''server_id'' = Some ''1'' \<and> ptags q2 ''server_id'' = Some ''2''
        \<and> ptime q1 = CTime 5 \<and> ptime q2 = CTime 5)"
proof (intro conjI)
  let ?s = "[CTime 0, CStr ''abc'', CStr ''1'']"
  let ?dup = "{|?s|}"
  have l: "2 < length ?s" by simp
  have upd: "?s[2 := c] = [CTime 0, CStr ''abc'', c]" for c by (simp add: numeral_2_eq_2)
  from synthetic_server_id_incremented [THEN conjunct1, rule_format, OF l,
      of "''client_buffer''" ?dup 1]
  obtain n :: nat where
    r: "resolve ''client_buffer'' ?dup (?s[2 := CStr (py_str_int 1)]) (Some 1) (Some 2)
          = Inr (?s[2 := CStr (py_str_int (1 + int n))], Some (1 + int n))"
    and fr: "?s[2 := CStr (py_str_int (1 + int n))] |\<notin>| ?dup"
    and bl: "\<forall>j<n. ?s[2 := CStr (py_str_int (1 + int j))] |\<in>| ?dup"
    by blast
  have n0: "n \<noteq> 0"
  proof
    assume "n = 0"
    with fr show False by (simp add: upd py_str_int_1)
  qed
  have "n < 2"
  proof (rule ccontr)
    assume "\<not> n < 2"
    then have "1 < n" by simp
    with bl have "?s[2 := CStr (py_str_int (1 + int 1))] |\<in>| ?dup" by blast
    then have "py_str_int 2 = ''1''" by (simp add: upd)
    then show False by (simp add: py_str_int_2)
  qed
  with n0 have "n = 1" by simp
  with r show "resolve ''client_buffer'' {|[CTime 0, CStr ''abc'', CStr ''1'']|}
      [CTime 0, CStr ''abc'', CStr ''1''] (Some 1) (Some 2)
     = Inr ([CTime 0, CStr ''abc'', CStr ''2''], Some 2)"
    by (simp add: upd py_str_int_1 py_str_int_2)
next
  let ?pt = "\<lparr>time = 3, attrs = [(''channel'', VStr ''abc'')]\<rparr>"
  have h: "restricted ''video_sent'' \<and> map_of (attrs ?pt) ''channel'' = Some (VStr ''abc'')
      \<and> map_of (attrs ?pt) ''server_id'' = None"
    by (simp add: restricted_def)
  from synthetic_server_id_incremented [THEN conjunct2, THEN conjunct1, rule_format, OF h,
      of "{||}" coerce_plain]
  obtain n :: nat where
    bl: "\<forall>j<n. [CTime (time ?pt), CStr (py_str (VStr ''abc'')), CStr (py_str_int (1 + int j))]
            |\<in>| {||}"
    and p: "process_point coerce_plain ''video_sent'' {||} ?pt
          = emit_point coerce_plain ''video_sent'' [''channel'', ''server_id''] {||}
              [CTime (time ?pt), CStr (py_str (VStr ''abc'')), CStr (py_str_int (1 + int n))]
              (Some (1 + int n)) ?pt"
    by blast
  have "n = 0"
  proof (rule ccontr)
    assume "n \<noteq> 0"
    then have "0 < n" by simp
    with bl show False by auto
  qed
  with p show "\<exists>p d. process_point coerce_plain ''video_sent'' {||} ?pt = Inr (p, d)
             \<and> ptags p ''server_id'' = Some ''1''
             \<and> d = {|[CTime 3, CStr ''abc'', CStr ''1'']|}"
    by (simp add: emit_point_def field_keys_def field_keys_table_def classify_Cons normalize_def
        py_str_int_1)
next
  let ?pt1 = "\<lparr>time = 5, attrs = [(''channel'', VStr ''abc''), (''server_id_1'', VNone),
                              (''video_ts'', VInt 9)]\<rparr>"
  let ?pt2 = "\<lparr>time = 5, attrs = [(''channel'', VStr ''abc''), (''video_ts'', VInt 7)]\<rparr>"
  let ?fks = "[(''buffer'', TFloat), (''cum_rebuffer'', TFloat), (''expt_id'', TInt),
               (''init_id'', TInt), (''ssim_index'', TFloat), (''user'', TStr),
               (''video_ts'', TInt)]"
  have h: "restricted ''video_acked'' \<and> field_keys ''video_acked'' = Some ?fks
        \<and> time ?pt2 = time ?pt1
        \<and> map_of (attrs ?pt1) ''channel'' = Some (VStr ''abc'')
        \<and> map_of (attrs ?pt2) ''channel'' = Some (VStr ''abc'')
        \<and> map_of (attrs ?pt1) ''server_id'' = None \<and> map_of (attrs ?pt2) ''server_id'' = None
        \<and> (\<forall>w. (''server_id_1'', w) \<in> set (attrs ?pt1) \<longrightarrow> w = VNone)
        \<and> (\<forall>w. (''server_id_1'', w) \<in> set (attrs ?pt2) \<longrightarrow> w = VNone)
        \<and> (\<forall>e\<in>set (attrs ?pt1). live e
              \<longrightarrow> classifiable coerce_plain ''video_acked'' [''channel'', ''server_id''] ?fks e)
        \<and> (\<forall>e\<in>set (attrs ?pt2). live e
              \<longrightarrow> classifiable coerce_plain ''video_acked'' [''channel'', ''server_id''] ?fks e)"
    by (simp add: restricted_def field_keys_def field_keys_table_def live_def classifiable_def
        normalize_def)
  from synthetic_server_id_incremented
    [THEN conjunct2, THEN conjunct2, THEN conjunct2, THEN conjunct2, rule_format, OF h]
  show "\<exists>q1 q2. convert_measurement coerce_plain ''video_acked'' [?pt1, ?pt2] = (None, [[q1, q2]])
        \<and> ptags q1 ''server_id'' = Some ''1'' \<and> ptags q2 ''server_id'' = Some ''2''
        \<and> ptime q1 = CTime 5 \<and> ptime q2 = CTime 5"
    by simp
qed

text \<open>
  Claim C5. Outside \<^verbatim>\<open>client_buffer\<close>, \<^verbatim>\<open>video_sent\<close> and \<^verbatim>\<open>video_acked\<close> a collision is
  resolved by moving the timestamp of the key forward, one microsecond (line 129; the unit
  of \<open>time\<close>) per turn, to the first timestamp that gives an unseen key; no error is
  raised for it. A point of such a measurement that has all its declared tags is emitted
  with that timestamp, and the key with that timestamp joins the seen set. Two equal
  \<^verbatim>\<open>ssim\<close> points are both emitted, the second one microsecond later.
\<close>

theorem collision_shifts_timestamp:
  "(\<not> restricted m \<longrightarrow>
     (\<exists>n::nat.
        resolve m dup (CTime t # rest) None idx = Inr (CTime (t + int n) # rest, None)
      \<and> CTime (t + int n) # rest |\<notin>| dup
      \<and> (\<forall>j<n. CTime (t + int j) # rest |\<in>| dup)))
   \<and> (\<not> restricted m \<and> tag_keys m = Some tks
        \<and> (\<forall>k\<in>set tks. map_of (attrs pt) k \<noteq> None) \<longrightarrow>
     (\<exists>n::nat.
        CTime (time pt + int n) # tag_cells pt tks |\<notin>| dup
      \<and> (\<forall>j<n. CTime (time pt + int j) # tag_cells pt tks |\<in>| dup)
      \<and> process_point coerce m dup pt
          = emit_point coerce m tks dup (CTime (time pt + int n) # tag_cells pt tks) None pt
      \<and> (\<forall>p dup'. process_point coerce m dup pt = Inr (p, dup') \<longrightarrow>
            ptime p = CTime (time pt + int n)
          \<and> dup' = finsert (CTime (time pt + int n) # tag_cells pt tks) dup)))
   \<and> (\<exists>p1 p2.
        convert_measurement coerce_plain ''ssim''
          [\<lparr>time = 7, attrs = [(''channel'', VStr ''abc''), (''format'', VStr ''hd'')]\<rparr>,
           \<lparr>time = 7, attrs = [(''channel'', VStr ''abc''), (''format'', VStr ''hd'')]\<rparr>]
          = (None, [[p1, p2]])
      \<and> ptime p1 = CTime 7 \<and> ptime p2 = CTime 8
      \<and> ptags p1 = ptags p2)"
proof (intro conjI impI)
  assume "\<not> restricted m"
  then show "\<exists>n::nat.
        resolve m dup (CTime t # rest) None idx = Inr (CTime (t + int n) # rest, None)
      \<and> CTime (t + int n) # rest |\<notin>| dup
      \<and> (\<forall>j<n. CTime (t + int j) # rest |\<in>| dup)"
    by (rule resolve_time_least)
next
  assume a: "\<not> restricted m \<and> tag_keys m = Some tks
        \<and> (\<forall>k\<in>set tks. map_of (attrs pt) k \<noteq> None)"
  then obtain n :: nat where
    fr: "CTime (time pt + int n) # tag_cells pt tks |\<notin>| dup"
    and bl: "\<forall>j<n. CTime (time pt + int j) # tag_cells pt tks |\<in>| dup"
    and p: "process_point coerce m dup pt
          = emit_point coerce m tks dup (CTime (time pt + int n) # tag_cells pt tks) None pt"
    using process_point_shift [of m tks pt dup coerce] by blast
  have "ptime q = CTime (time pt + int n)
          \<and> d = finsert (CTime (time pt + int n) # tag_cells pt tks) dup"
    if "process_point coerce m dup pt = Inr (q, d)" for q d
    using emit_point_Inr [of coerce m tks dup "CTime (time pt + int n) # tag_cells pt tks" None pt q d]
      that p by auto
  with fr bl p show "\<exists>n::nat.
        CTime (time pt + int n) # tag_cells pt tks |\<notin>| dup
      \<and> (\<forall>j<n. CTime (time pt + int j) # tag_cells pt tks |\<in>| dup)
      \<and> process_point coerce m dup pt
          = emit_point coerce m tks dup (CTime (time pt + int n) # tag_cells pt tks) None pt
      \<and> (\<forall>p dup'. process_point coerce m dup pt = Inr (p, dup') \<longrightarrow>
            ptime p = CTime (time pt + int n)
          \<and> dup' = finsert (CTime (time pt + int n) # tag_cells pt tks) dup)"
    by blast
next
  show "\<exists>p1 p2.
        convert_measurement coerce_plain ''ssim''
          [\<lparr>time = 7, attrs = [(''channel'', VStr ''abc''), (''format'', VStr ''hd'')]\<rparr>,
           \<lparr>time = 7, attrs = [(''channel'', VStr ''abc''), (''format'', VStr ''hd'')]\<rparr>]
          = (None, [[p1, p2]])
      \<and> ptime p1 = CTime 7 \<and> ptime p2 = CTime 8
      \<and> ptags p1 = ptags p2"
    by (simp add: run_simps)
qed

theorem collision_shifts_timestamp_witness:
  "resolve ''ssim'' {|[CTime 7, CStr ''abc'', CStr ''hd'']|} [CTime 7, CStr ''abc'', CStr ''hd'']
      None None
     = Inr ([CTime 8, CStr ''abc'', CStr ''hd''], None)
   \<and> (\<exists>p d. process_point coerce_plain ''backlog'' {|[CTime 4, CStr ''abc'']|}
               \<lparr>time = 4, attrs = [(''channel'', VStr ''abc'')]\<rparr> = Inr (p, d)
             \<and> ptime p = CTime 5
             \<and> d = {|[CTime 5, CStr ''abc''], [CTime 4, CStr ''abc'']|})"
proof
  let ?dup = "{|[CTime 7, CStr ''abc'', CStr ''hd'']|}"
  have nr: "\<not> restricted ''ssim''" by (simp add: restricted_def)
  from collision_shifts_timestamp [THEN conjunct1, rule_format, OF nr,
      of ?dup 7 "[CStr ''abc'', CStr ''hd'']" None]
  obtain n :: nat where
    r: "resolve ''ssim'' ?dup [CTime 7, CStr ''abc'', CStr ''hd''] None None
          = Inr ([CTime (7 + int n), CStr ''abc'', CStr ''hd''], None)"
    and fr: "[CTime (7 + int n), CStr ''abc'', CStr ''hd''] |\<notin>| ?dup"
    and bl: "\<forall>j<n. [CTime (7 + int j), CStr ''abc'', CStr ''hd''] |\<in>| ?dup"
    by blast
  have n0: "n \<noteq> 0"
  proof
    assume "n = 0"
    with fr show False by simp
  qed
  have "n < 2"
  proof (rule ccontr)
    assume "\<not> n < 2"
    then have "1 < n" by simp
    with bl have "[CTime (7 + int 1), CStr ''abc'', CStr ''hd''] |\<in>| ?dup" by blast
    then show False by simp
  qed
  with n0 have "n = 1" by simp
  with r show "resolve ''ssim'' ?dup [CTime 7, CStr ''abc'', CStr ''hd''] None None
     = Inr ([CTime 8, CStr ''abc'', CStr ''hd''], None)"
    by simp
next
  let ?pt = "\<lparr>time = 4, attrs = [(''channel'', VStr ''abc'')]\<rparr>"
  let ?dup = "{|[CTime 4, CStr ''abc'']|}"
  have tc: "tag_cells ?pt [''channel''] = [CStr ''abc'']" by (simp add: tag_cells_def)
  have h: "\<not> restricted ''backlog'' \<and> tag_keys ''backlog'' = Some [''channel'']
        \<and> (\<forall>k\<in>set [''channel'']. map_of (attrs ?pt) k \<noteq> None)"
    by (simp add: restricted_def tag_keys_def tag_keys_table_def)
  from collision_shifts_timestamp [THEN conjunct2, THEN conjunct1, rule_format, OF h,
      of ?dup coerce_plain]
  obtain n :: nat where
    fr: "CTime (time ?pt + int n) # tag_cells ?pt [''channel''] |\<notin>| ?dup"
    and bl: "\<forall>j<n. CTime (time ?pt + int j) # tag_cells ?pt [''channel''] |\<in>| ?dup"
    and p: "process_point coerce_plain ''backlog'' ?dup ?pt
          = emit_point coerce_plain ''backlog'' [''channel''] ?dup
              (CTime (time ?pt + int n) # tag_cells ?pt [''channel'']) None ?pt"
    by blast
  have n0: "n \<noteq> 0"
  proof
    assume "n = 0"
    with fr show False by (simp add: tc)
  qed
  have "n < 2"
  proof (rule ccontr)
    assume "\<not> n < 2"
    then have "1 < n" by simp
    with bl have "CTime (time ?pt + int 1) # tag_cells ?pt [''channel''] |\<in>| ?dup" by blast
    then show False by (simp add: tc)
  qed
  with n0 have "n = 1" by simp
  with p show "\<exists>p d. process_point coerce_plain ''backlog'' ?dup ?pt = Inr (p, d)
             \<and> ptime p = CTime 5
             \<and> d = {|[CTime 5, CStr ''abc''], [CTime 4, CStr ''abc'']|}"
    by (simp add: tc emit_point_def field_keys_def field_keys_table_def classify_Cons
        normalize_def)
qed

text \<open>
  Claim C4. In \<^verbatim>\<open>client_buffer\<close>, \<^verbatim>\<open>video_sent\<close> and \<^verbatim>\<open>video_acked\<close> a collision with no
  synthetic slot is fatal: the loop returns \<open>UnresolvableCollision\<close>; a point that has
  both declared tags and whose key is already seen is rejected with that error and the run
  stops there. The timestamp is never shifted for these measurements: an emitted point
  carries the time of its raw point, and so do all the points a run writes, in order.
\<close>

theorem restricted_collision_is_fatal:
  "(restricted m \<and> series |\<in>| dup \<longrightarrow>
      resolve m dup series None idx = Inl (UnresolvableCollision m))
   \<and> (restricted m \<and> map_of (attrs pt) ''channel'' \<noteq> None
        \<and> map_of (attrs pt) ''server_id'' \<noteq> None
        \<and> CTime (time pt) # tag_cells pt [''channel'', ''server_id''] |\<in>| dup_check st \<longrightarrow>
      process_point coerce m (dup_check st) pt = Inl (UnresolvableCollision m)
      \<and> convert_points coerce m (pt # pts) st = (Some (UnresolvableCollision m), st))
   \<and> (restricted m \<and> process_point coerce m dup pt = Inr (p, dup') \<longrightarrow>
      ptime p = CTime (time pt))
   \<and> (restricted m \<longrightarrow>
      (\<exists>k. map ptime (concat (snd (convert_measurement coerce m pts)))
            = map (\<lambda>pt. CTime (time pt)) (take k pts)))"
proof (intro conjI impI)
  assume "restricted m \<and> series |\<in>| dup"
  then show "resolve m dup series None idx = Inl (UnresolvableCollision m)"
    by (simp add: resolve_restricted)
next
  assume a: "restricted m \<and> map_of (attrs pt) ''channel'' \<noteq> None
        \<and> map_of (attrs pt) ''server_id'' \<noteq> None
        \<and> CTime (time pt) # tag_cells pt [''channel'', ''server_id''] |\<in>| dup_check st"
  then have tk: "tag_keys m = Some [''channel'', ''server_id'']" by (simp add: restricted_tag_keys)
  from a have pres: "\<forall>k\<in>set [''channel'', ''server_id'']. map_of (attrs pt) k \<noteq> None" by simp
  from a have r: "restricted m" by simp
  from process_point_no_shift [OF tk pres r, of coerce "dup_check st"] a
  show p: "process_point coerce m (dup_check st) pt = Inl (UnresolvableCollision m)" by simp
  then show "convert_points coerce m (pt # pts) st = (Some (UnresolvableCollision m), st)"
    by simp
next
  assume "restricted m \<and> process_point coerce m dup pt = Inr (p, dup')"
  then show "ptime p = CTime (time pt)" using restricted_ptime by blast
next
  assume "restricted m"
  then show "\<exists>k. map ptime (concat (snd (convert_measurement coerce m pts)))
            = map (\<lambda>pt. CTime (time pt)) (take k pts)"
    by (rule restricted_times_kept)
qed

theorem restricted_collision_is_fatal_witness:
  "process_point coerce_plain ''video_sent'' {|[CTime 9, CStr ''abc'', CStr ''5'']|}
      \<lparr>time = 9, attrs = [(''channel'', VStr ''abc''), (''server_id'', VStr ''5'')]\<rparr>
     = Inl (UnresolvableCollision ''video_sent'')
   \<and> convert_measurement coerce_plain ''video_sent''
       [\<lparr>time = 9, attrs = [(''channel'', VStr ''abc''), (''server_id'', VStr ''5'')]\<rparr>,
        \<lparr>time = 9, attrs = [(''channel'', VStr ''abc''), (''server_id'', VStr ''5'')]\<rparr>]
     = (Some (UnresolvableCollision ''video_sent''), [])"
proof
  let ?pt = "\<lparr>time = 9, attrs = [(''channel'', VStr ''abc''), (''server_id'', VStr ''5'')]\<rparr>"
  let ?st = "\<lparr>json_body = [], dup_check = {|[CTime 9, CStr ''abc'', CStr ''5'']|}, written = []\<rparr>"
  have h: "restricted ''video_sent'' \<and> map_of (attrs ?pt) ''channel'' \<noteq> None
        \<and> map_of (attrs ?pt) ''server_id'' \<noteq> None
        \<and> CTime (time ?pt) # tag_cells ?pt [''channel'', ''server_id''] |\<in>| dup_check ?st"
    by (simp add: restricted_def tag_cells_def)
  from restricted_collision_is_fatal [THEN conjunct2, THEN conjunct1, rule_format, OF h,
      of coerce_plain "[]"]
  show "process_point coerce_plain ''video_sent'' {|[CTime 9, CStr ''abc'', CStr ''5'']|} ?pt
     = Inl (UnresolvableCollision ''video_sent'')"
    by simp
next
  show "convert_measurement coerce_plain ''video_sent''
       [\<lparr>time = 9, attrs = [(''channel'', VStr ''abc''), (''server_id'', VStr ''5'')]\<rparr>,
        \<lparr>time = 9, attrs = [(''channel'', VStr ''abc''), (''server_id'', VStr ''5'')]\<rparr>]
     = (Some (UnresolvableCollision ''video_sent''), [])"
    by (simp add: run_simps)
qed

text \<open>
  Claim C7, as the code has it. The claim says that the synthetic \<^verbatim>\<open>server_id\<close> wins over
  a raw value whose normalized key is \<^verbatim>\<open>server_id\<close>. Line 139 stores the synthetic value
  before the loop of line 141 runs, and line 154 then stores the raw value of
  \<^verbatim>\<open>server_id_1\<close> over it: on the point below the key holds the synthetic "1" and the
  emitted tag is the raw "7".
\<close>

theorem raw_server_id_overrides_synthetic:
  "process_point coerce_plain ''client_buffer'' {||}
      \<lparr>time = 0, attrs = [(''channel'', VStr ''abc''), (''server_id_1'', VStr ''7'')]\<rparr>
     = Inr (\<lparr>measurement = ''client_buffer'', ptime = CTime 0,
             ptags = [''server_id'' \<mapsto> ''1'', ''channel'' \<mapsto> ''abc'', ''server_id'' \<mapsto> ''7''],
             pfields = Map.empty\<rparr>,
            {|[CTime 0, CStr ''abc'', CStr ''1'']|})
   \<and> [''server_id'' \<mapsto> ''1'', ''channel'' \<mapsto> ''abc'', ''server_id'' \<mapsto> ''7''] ''server_id''
       = Some ''7''"
  by (simp add: run_simps)

text \<open>
  Claim C7, amended. For a point of \<^verbatim>\<open>client_buffer\<close>, \<^verbatim>\<open>video_sent\<close> or \<^verbatim>\<open>video_acked\<close>
  without \<^verbatim>\<open>server_id\<close> (the points that get a synthetic value) that carries no non-null
  value under \<^verbatim>\<open>server_id_1\<close>, the emitted tags map \<^verbatim>\<open>server_id\<close> to the synthetic value
  that stands in the key added to the seen set.
\<close>

theorem synthetic_server_id_in_tags:
  "restricted m \<and> map_of (attrs pt) ''server_id'' = None
   \<and> (\<forall>w. (''server_id_1'', w) \<in> set (attrs pt) \<longrightarrow> w = VNone)
   \<and> process_point coerce m dup pt = Inr (p, dup')
   \<longrightarrow> (\<exists>v. \<exists>n::nat.
          map_of (attrs pt) ''channel'' = Some v
        \<and> ptags p ''server_id'' = Some (py_str_int (1 + int n))
        \<and> [CTime (time pt), CStr (py_str v), CStr (py_str_int (1 + int n))] |\<notin>| dup
        \<and> dup' = finsert [CTime (time pt), CStr (py_str v), CStr (py_str_int (1 + int n))] dup)"
proof
  assume a: "restricted m \<and> map_of (attrs pt) ''server_id'' = None
   \<and> (\<forall>w. (''server_id_1'', w) \<in> set (attrs pt) \<longrightarrow> w = VNone)
   \<and> process_point coerce m dup pt = Inr (p, dup')"
  then have r: "restricted m" and sid: "map_of (attrs pt) ''server_id'' = None"
    and nul: "\<forall>w. (''server_id_1'', w) \<in> set (attrs pt) \<longrightarrow> w = VNone"
    and pp: "process_point coerce m dup pt = Inr (p, dup')"
    by simp_all
  have untouched: "\<forall>e\<in>set (attrs pt). live e \<longrightarrow> normalize m (fst e) \<noteq> ''server_id''"
  proof (intro ballI impI notI)
    fix e
    assume e: "e \<in> set (attrs pt)" and l: "live e" and n: "normalize m (fst e) = ''server_id''"
    obtain a w where aw: "e = (a, w)" by (cases e)
    from normalize_eq [OF n] aw have "a = ''server_id'' \<or> a = ''server_id_1''" by auto
    then show False
    proof
      assume "a = ''server_id''"
      with e aw absent_no_entry [OF sid, of w] show False by simp
    next
      assume "a = ''server_id_1''"
      with e aw nul have "w = VNone" by blast
      with l aw show False by (simp add: live_def)
    qed
  qed
  from pp show "\<exists>v. \<exists>n::nat.
          map_of (attrs pt) ''channel'' = Some v
        \<and> ptags p ''server_id'' = Some (py_str_int (1 + int n))
        \<and> [CTime (time pt), CStr (py_str v), CStr (py_str_int (1 + int n))] |\<notin>| dup
        \<and> dup' = finsert [CTime (time pt), CStr (py_str v), CStr (py_str_int (1 + int n))] dup"
  proof (cases rule: process_point_cases)
    case (synthetic v n)
    from emit_point_classify [OF synthetic(6)] obtain fks where
      c: "classify coerce m [''channel'', ''server_id''] fks (attrs pt)
            ([''server_id'' \<mapsto> py_str_int (1 + int n)], Map.empty) = Inr (ptags p, pfields p)"
      by auto
    from classify_tag_untouched [OF c untouched]
    have "ptags p ''server_id'' = Some (py_str_int (1 + int n))" by simp
    moreover from emit_point_Inr [OF synthetic(6)]
    have "dup' = finsert [CTime (time pt), CStr (py_str v), CStr (py_str_int (1 + int n))] dup"
      by simp
    ultimately show ?thesis using synthetic(3,5) by blast
  next
    case (genuine tks n)
    from restricted_tag_keys [OF r] genuine(1) have "tks = [''channel'', ''server_id'']" by simp
    with genuine(2) sid show ?thesis by simp
  qed
qed

theorem synthetic_server_id_in_tags_witness:
  "\<exists>v. \<exists>n::nat.
      map_of [(''channel'', VStr ''abc''), (''server_id_1'', VNone)] ''channel'' = Some v
    \<and> [''server_id'' \<mapsto> ''1'', ''channel'' \<mapsto> ''abc''] ''server_id''
        = Some (py_str_int (1 + int n))
    \<and> {|[CTime 0, CStr ''abc'', CStr ''1'']|}
        = finsert [CTime 0, CStr (py_str v), CStr (py_str_int (1 + int n))] {||}"
proof -
  let ?pt = "\<lparr>time = 0, attrs = [(''channel'', VStr ''abc''), (''server_id_1'', VNone)]\<rparr>"
  let ?p = "\<lparr>measurement = ''client_buffer'', ptime = CTime 0,
             ptags = [''server_id'' \<mapsto> ''1'', ''channel'' \<mapsto> ''abc''], pfields = Map.empty\<rparr>"
  have run: "process_point coerce_plain ''client_buffer'' {||} ?pt
      = Inr (?p, {|[CTime 0, CStr ''abc'', CStr ''1'']|})"
    by (simp add: run_simps)
  have h: "restricted ''client_buffer'' \<and> map_of (attrs ?pt) ''server_id'' = None
   \<and> (\<forall>w. (''server_id_1'', w) \<in> set (attrs ?pt) \<longrightarrow> w = VNone)
   \<and> process_point coerce_plain ''client_buffer'' {||} ?pt
        = Inr (?p, {|[CTime 0, CStr ''abc'', CStr ''1'']|})"
    using run by (simp add: restricted_def)
  from synthetic_server_id_in_tags [rule_format, OF h] show ?thesis by simp
qed







text \<open>
  Claim C1. The claim says that the emitted points of one measurement have pairwise
  distinct dedup keys (time, then the tag values in the order of the declared tag keys);
  lines 115 to 131 are there for it ("make sure series is unique", "Avoid overwriting").
  The loop makes the keys of \<^verbatim>\<open>dup_check\<close> distinct, and those are built from
  \<^verbatim>\<open>pt[tag_key]\<close>; the emitted tags are built by the classification, where a non-null
  entry \<^verbatim>\<open>channel_1\<close> is stored under \<^verbatim>\<open>channel\<close>. Below, the two keys added to
  \<^verbatim>\<open>dup_check\<close> differ ("a" and "b"), no collision is seen, and the two emitted points
  have the same time and the same tags: the code does not keep the emitted keys distinct.
\<close>

theorem suffixed_tag_makes_equal_keys:
  "tag_keys ''backlog'' = Some [''channel'']
   \<and> convert_measurement coerce_plain ''backlog''
        [\<lparr>time = 0, attrs = [(''channel'', VStr ''a''), (''channel_1'', VStr ''x'')]\<rparr>,
         \<lparr>time = 0, attrs = [(''channel'', VStr ''b''), (''channel_1'', VStr ''x'')]\<rparr>]
       = (None,
          [[\<lparr>measurement = ''backlog'', ptime = CTime 0, ptags = [''channel'' \<mapsto> ''x''],
              pfields = Map.empty\<rparr>,
            \<lparr>measurement = ''backlog'', ptime = CTime 0, ptags = [''channel'' \<mapsto> ''x''],
              pfields = Map.empty\<rparr>]])
   \<and> \<not> distinct (map (dedup_key [''channel''])
          (concat (snd (convert_measurement coerce_plain ''backlog''
            [\<lparr>time = 0, attrs = [(''channel'', VStr ''a''), (''channel_1'', VStr ''x'')]\<rparr>,
             \<lparr>time = 0, attrs = [(''channel'', VStr ''b''), (''channel_1'', VStr ''x'')]\<rparr>]))))
   \<and> process_point coerce_plain ''backlog'' {||}
        \<lparr>time = 0, attrs = [(''channel'', VStr ''a''), (''channel_1'', VStr ''x'')]\<rparr>
       = Inr (\<lparr>measurement = ''backlog'', ptime = CTime 0, ptags = [''channel'' \<mapsto> ''x''],
               pfields = Map.empty\<rparr>,
              {|[CTime 0, CStr ''a'']|})
   \<and> process_point coerce_plain ''backlog'' {|[CTime 0, CStr ''a'']|}
        \<lparr>time = 0, attrs = [(''channel'', VStr ''b''), (''channel_1'', VStr ''x'')]\<rparr>
       = Inr (\<lparr>measurement = ''backlog'', ptime = CTime 0, ptags = [''channel'' \<mapsto> ''x''],
               pfields = Map.empty\<rparr>,
              {|[CTime 0, CStr ''b''], [CTime 0, CStr ''a'']|})"
proof -
  have run: "convert_measurement coerce_plain ''backlog''
        [\<lparr>time = 0, attrs = [(''channel'', VStr ''a''), (''channel_1'', VStr ''x'')]\<rparr>,
         \<lparr>time = 0, attrs = [(''channel'', VStr ''b''), (''channel_1'', VStr ''x'')]\<rparr>]
       = (None,
          [[\<lparr>measurement = ''backlog'', ptime = CTime 0, ptags = [''channel'' \<mapsto> ''x''],
              pfields = Map.empty\<rparr>,
            \<lparr>measurement = ''backlog'', ptime = CTime 0, ptags = [''channel'' \<mapsto> ''x''],
              pfields = Map.empty\<rparr>]])"
    by (simp add: run_simps)
  have tk: "tag_keys ''backlog'' = Some [''channel'']"
    by (simp add: tag_keys_def tag_keys_table_def)
  have p1: "process_point coerce_plain ''backlog'' {||}
        \<lparr>time = 0, attrs = [(''channel'', VStr ''a''), (''channel_1'', VStr ''x'')]\<rparr>
       = Inr (\<lparr>measurement = ''backlog'', ptime = CTime 0, ptags = [''channel'' \<mapsto> ''x''],
               pfields = Map.empty\<rparr>,
              {|[CTime 0, CStr ''a'']|})"
    by (simp add: run_simps)
  have p2: "process_point coerce_plain ''backlog'' {|[CTime 0, CStr ''a'']|}
        \<lparr>time = 0, attrs = [(''channel'', VStr ''b''), (''channel_1'', VStr ''x'')]\<rparr>
       = Inr (\<lparr>measurement = ''backlog'', ptime = CTime 0, ptags = [''channel'' \<mapsto> ''x''],
               pfields = Map.empty\<rparr>,
              {|[CTime 0, CStr ''b''], [CTime 0, CStr ''a'']|})"
    by (simp add: run_simps)
  show ?thesis unfolding run p1 p2 using tk by (simp add: dedup_key_def)
qed

end
